theory Spec2Isabelle
  imports Complex_Main "HOL-Library.Word"
begin

unbundle bit_operations_syntax

section \<open>The audio engine of src/utils/audioEngine.ts\<close>

text \<open>
  The class \<^verbatim>\<open>AudioEngine\<close> drives the Web Audio API: it schedules a music buffer and a
  voice buffer on the device clock, and renders their mix into a WAV file. The model
  below follows the class method by method. What the host platform does (typed arrays,
  audio nodes, the offline context) is modelled from the ECMAScript, WebIDL and Web Audio
  rules the calls rely on, each in a definition of its own.

  JavaScript numbers are modelled as real numbers, with one extra value for \<^verbatim>\<open>NaN\<close>
  where the code can meet it. The infinities are not modelled. The rounding of IEEE
  doubles is written out in the offline renderer, where it decides an integer, the length
  of the rendered mix; elsewhere the arithmetic is exact. On the sample path this loses
  nothing: a Float32 sample times 32767 or 32768 is exact in a double.
\<close>

subsection \<open>Numbers and bytes\<close>

datatype number = Num real | NaN

type_synonym byte = "8 word"

datatype error =
    RangeError
  | InvalidStateError
  | NotSupportedError
  | NothingToRender

text \<open>Truncation toward zero, the first step of every integer conversion of a number.\<close>

definition trunc :: "real \<Rightarrow> int" where
  "trunc x = (if 0 \<le> x then \<lfloor>x\<rfloor> else \<lceil>x\<rceil>)"

text \<open>\<^verbatim>\<open>ToInt32\<close>, \<^verbatim>\<open>ToUint32\<close>, \<^verbatim>\<open>ToInt16\<close> and \<^verbatim>\<open>ToUint16\<close> of ECMAScript: \<^verbatim>\<open>NaN\<close>
  becomes 0, any other number is truncated and wrapped to the width. A word holds the
  bits; \<open>sint\<close> and \<open>unat\<close> read it signed or unsigned.\<close>

fun ToInt32 :: "number \<Rightarrow> 32 word" where
  "ToInt32 (Num x) = word_of_int (trunc x)"
| "ToInt32 NaN = 0"

fun ToUint32 :: "number \<Rightarrow> 32 word" where
  "ToUint32 (Num x) = word_of_int (trunc x)"
| "ToUint32 NaN = 0"

fun ToUint16 :: "number \<Rightarrow> 16 word" where
  "ToUint16 (Num x) = word_of_int (trunc x)"
| "ToUint16 NaN = 0"

fun ToInt16 :: "number \<Rightarrow> 16 word" where
  "ToInt16 (Num x) = word_of_int (trunc x)"
| "ToInt16 NaN = 0"

fun Math_min :: "number \<Rightarrow> number \<Rightarrow> number" where
  "Math_min (Num a) (Num b) = Num (min a b)"
| "Math_min _ _ = NaN"

fun Math_max :: "number \<Rightarrow> number \<Rightarrow> number" where
  "Math_max (Num a) (Num b) = Num (max a b)"
| "Math_max _ _ = NaN"

fun js_add :: "number \<Rightarrow> number \<Rightarrow> number" where
  "js_add (Num a) (Num b) = Num (a + b)"
| "js_add _ _ = NaN"

fun js_mul :: "number \<Rightarrow> number \<Rightarrow> number" where
  "js_mul (Num a) (Num b) = Num (a * b)"
| "js_mul _ _ = NaN"

text \<open>A comparison with \<^verbatim>\<open>NaN\<close> is false.\<close>

fun js_lt :: "number \<Rightarrow> number \<Rightarrow> bool" where
  "js_lt (Num a) (Num b) = (a < b)"
| "js_lt _ _ = False"

text \<open>Little-endian bytes of a 16-bit and of a 32-bit value.\<close>

definition le16 :: "16 word \<Rightarrow> byte list" where
  "le16 w = [ucast w, ucast (drop_bit 8 w)]"

definition le32 :: "32 word \<Rightarrow> byte list" where
  "le32 w = [ucast w, ucast (drop_bit 8 w), ucast (drop_bit 16 w), ucast (drop_bit 24 w)]"

subsection \<open>Double precision\<close>

text \<open>The double nearest to a real number: 53 significant bits, ties to the even
  neighbour. \<open>expo x\<close> is the binary exponent of a positive \<open>x\<close>, found by halving or
  doubling it into \<open>[1, 2)\<close>. The exponent is not bounded, so overflow and subnormal
  numbers are not modelled.\<close>

function expo :: "real \<Rightarrow> int" where
  "expo x = (if x \<le> 0 then 0
             else if x < 1 then expo (x * 2) - 1
             else if 2 \<le> x then expo (x / 2) + 1
             else 0)"
  by pat_completeness auto
termination
proof (relation "measure (\<lambda>x. if x < 1 then nat \<lceil>- log 2 x\<rceil> else nat \<lfloor>log 2 x\<rfloor>)")
  show "wf (measure (\<lambda>x. if x < 1 then nat \<lceil>- log 2 x\<rceil> else nat \<lfloor>log 2 x\<rfloor>))" by simp
next
  fix x :: real
  assume a: "\<not> x \<le> 0" "x < 1"
  have l: "log 2 (x * 2) = log 2 x + 1" using a by (simp add: log_mult)
  have neg: "log 2 x < 0" using a by simp
  show "(x * 2, x) \<in> measure (\<lambda>x. if x < 1 then nat \<lceil>- log 2 x\<rceil> else nat \<lfloor>log 2 x\<rfloor>)"
  proof (cases "x * 2 < 1")
    case True
    have "\<lceil>- log 2 (x * 2)\<rceil> = \<lceil>- log 2 x\<rceil> - 1" unfolding l by linarith
    moreover have "0 < \<lceil>- log 2 x\<rceil>" using neg by linarith
    ultimately show ?thesis using a True by simp
  next
    case False
    then have "x * 2 < 2" "1 \<le> x * 2" using a by auto
    then have "0 \<le> log 2 (x * 2)" "log 2 (x * 2) < 1" by (simp_all add: log_less_iff)
    then have "\<lfloor>log 2 (x * 2)\<rfloor> = 0" by linarith
    moreover have "0 < \<lceil>- log 2 x\<rceil>" using neg by linarith
    ultimately show ?thesis using a False by simp
  qed
next
  fix x :: real
  assume a: "\<not> x \<le> 0" "\<not> x < 1" "2 \<le> x"
  have l: "log 2 (x / 2) = log 2 x - 1" using a by (simp add: log_divide)
  have "1 \<le> log 2 x" using a by (simp add: le_log_iff)
  then have "0 < \<lfloor>log 2 x\<rfloor>" by linarith
  moreover have "\<lfloor>log 2 (x / 2)\<rfloor> = \<lfloor>log 2 x\<rfloor> - 1" unfolding l by linarith
  ultimately show "(x / 2, x) \<in> measure (\<lambda>x. if x < 1 then nat \<lceil>- log 2 x\<rceil> else nat \<lfloor>log 2 x\<rfloor>)"
    using a by simp
qed

declare expo.simps [simp del]

definition round_even :: "real \<Rightarrow> int" where
  "round_even y =
     (let f = \<lfloor>y\<rfloor>; d = y - of_int f
      in if d < 1 / 2 then f else if 1 / 2 < d then f + 1 else if even f then f else f + 1)"

definition rnd :: "real \<Rightarrow> real" where
  "rnd x = (if x = 0 then 0
            else (let u = 2 powi (expo \<bar>x\<bar> - 52) in of_int (round_even (x / u)) * u))"

text \<open>One rounding moves a positive number by at most one part in \<open>2 ^ 53\<close>.\<close>

definition ulo :: real where
  "ulo = 1 - 1 / 2 ^ 53"

definition uhi :: real where
  "uhi = 1 + 1 / 2 ^ 53"

subsection \<open>Audio buffers\<close>

text \<open>An \<^verbatim>\<open>AudioBuffer\<close>: its length in frames, its sample rate, and one array of
  Float32 samples per channel. The channel count is the number of these arrays, and
  \<open>duration\<close> is length over rate; the \<^verbatim>\<open>duration\<close> attribute holds it to the nearest
  double, which the offline renderer writes out.\<close>

record AudioBuffer =
  length_frames :: nat
  sampleRate :: real
  channelData :: "number list list"

definition numberOfChannels :: "AudioBuffer \<Rightarrow> nat" where
  "numberOfChannels b = length (channelData b)"

definition duration :: "AudioBuffer \<Rightarrow> real" where
  "duration b = real (length_frames b) / sampleRate b"

definition getChannelData :: "AudioBuffer \<Rightarrow> nat \<Rightarrow> number list" where
  "getChannelData b channel = channelData b ! channel"

text \<open>The buffers the platform hands out: at least one frame and one channel, a positive
  rate, and every channel as long as the buffer.\<close>

definition wf_buffer :: "AudioBuffer \<Rightarrow> bool" where
  "wf_buffer b \<longleftrightarrow>
     0 < length_frames b \<and> 0 < sampleRate b \<and> channelData b \<noteq> [] \<and>
     list_all (\<lambda>c. length c = length_frames b) (channelData b)"

fun wf_source :: "AudioBuffer option \<Rightarrow> bool" where
  "wf_source None = True"
| "wf_source (Some b) = wf_buffer b"

text \<open>What an audio context supports is left to the implementation, above a minimum
  that the Web Audio API fixes: 32 channels, and rates from 8000 to 96000 Hz.\<close>

record limits =
  maxChannels :: nat
  minSampleRate :: real
  maxSampleRate :: real

definition conforming :: "limits \<Rightarrow> bool" where
  "conforming lims \<longleftrightarrow> 32 \<le> maxChannels lims \<and> minSampleRate lims \<le> 8000 \<and> 96000 \<le> maxSampleRate lims"

definition minimal_limits :: limits where
  "minimal_limits = \<lparr>maxChannels = 32, minSampleRate = 8000, maxSampleRate = 96000\<rparr>"

text \<open>\<^verbatim>\<open>createBuffer(numberOfChannels, length, sampleRate)\<close>: the length is converted to an
  unsigned long, which drops its fraction; a channel count, length or rate outside the
  supported range is refused. The new buffer is silent.\<close>

definition createBuffer :: "limits \<Rightarrow> nat \<Rightarrow> real \<Rightarrow> real \<Rightarrow> error + AudioBuffer" where
  "createBuffer lims numChannels len rate =
     (let n = unat (ToUint32 (Num len))
      in if numChannels = 0 \<or> maxChannels lims < numChannels \<or> n = 0 \<or>
            rate < minSampleRate lims \<or> maxSampleRate lims < rate
         then Inl NotSupportedError
         else Inr \<lparr>length_frames = n, sampleRate = rate,
                   channelData = replicate numChannels (replicate n (Num 0))\<rparr>)"

subsection \<open>Source nodes and the engine state\<close>

text \<open>An \<^verbatim>\<open>AudioBufferSourceNode\<close>, as far as the engine drives it: the buffer assigned
  to it, whether it is connected to the master gain, the accepted \<^verbatim>\<open>start(when, offset)\<close>
  call, and whether \<^verbatim>\<open>stop()\<close> was accepted.\<close>

record source_node =
  buffer :: "AudioBuffer option"
  connected :: bool
  started :: "(real \<times> real) option"
  stopped :: bool

definition fresh_node :: source_node where
  "fresh_node = \<lparr>buffer = None, connected = False, started = None, stopped = False\<rparr>"

text \<open>The engine's fields, and the nodes the audio context has created so far: node \<open>i\<close>
  is the \<open>i\<close>-th node created, and the two source fields hold node identities. The
  context's clock \<^verbatim>\<open>ctx.currentTime\<close> is read by the caller and passed in as \<open>now\<close>.\<close>

record engine =
  nodes :: "nat \<Rightarrow> source_node"
  nextId :: nat
  musicSource :: "nat option"
  voiceSource :: "nat option"
  startTime :: real
  pausedAt :: real

definition init_engine :: engine where
  "init_engine = \<lparr>nodes = (\<lambda>_. fresh_node), nextId = 0, musicSource = None,
     voiceSource = None, startTime = 0, pausedAt = 0\<rparr>"

text \<open>A method either completes or throws; what it did to the engine before throwing
  stays done. So a method maps the engine to the exception, if any, and the engine after.\<close>

type_synonym command = "engine \<Rightarrow> error option \<times> engine"

definition then_do :: "command \<Rightarrow> command \<Rightarrow> command" where
  "then_do f g e = (case f e of (Some err, e') \<Rightarrow> (Some err, e') | (None, e') \<Rightarrow> g e')"

text \<open>\<^verbatim>\<open>try { body } catch(e) {}\<close>: whatever the body throws is dropped.\<close>

definition try_catch :: "command \<Rightarrow> command" where
  "try_catch body e = (case body e of (_, e') \<Rightarrow> (None, e'))"

definition on_node :: "nat \<Rightarrow> (source_node \<Rightarrow> error + source_node) \<Rightarrow> command" where
  "on_node i f e =
     (case f (nodes e i) of
        Inl err \<Rightarrow> (Some err, e)
      | Inr n \<Rightarrow> (None, e\<lparr>nodes := (nodes e)(i := n)\<rparr>))"

text \<open>The node methods, with the exceptions the Web Audio API gives them: \<^verbatim>\<open>start\<close>
  refuses a second start and a negative time or offset, \<^verbatim>\<open>stop\<close> refuses a node that
  was never started, assigning a second buffer is refused, and \<^verbatim>\<open>connect\<close> and
  \<^verbatim>\<open>disconnect\<close> always succeed.\<close>

definition node_start :: "real \<Rightarrow> real \<Rightarrow> source_node \<Rightarrow> error + source_node" where
  "node_start when' off n =
     (if started n \<noteq> None then Inl InvalidStateError
      else if when' < 0 \<or> off < 0 then Inl RangeError
      else Inr (n\<lparr>started := Some (when', off)\<rparr>))"

definition node_stop :: "source_node \<Rightarrow> error + source_node" where
  "node_stop n =
     (if started n = None then Inl InvalidStateError else Inr (n\<lparr>stopped := True\<rparr>))"

definition node_set_buffer :: "AudioBuffer \<Rightarrow> source_node \<Rightarrow> error + source_node" where
  "node_set_buffer b n =
     (if buffer n \<noteq> None then Inl InvalidStateError else Inr (n\<lparr>buffer := Some b\<rparr>))"

definition node_connect :: "source_node \<Rightarrow> error + source_node" where
  "node_connect n = Inr (n\<lparr>connected := True\<rparr>)"

definition node_disconnect :: "source_node \<Rightarrow> error + source_node" where
  "node_disconnect n = Inr (n\<lparr>connected := False\<rparr>)"

definition createBufferSource :: "engine \<Rightarrow> engine" where
  "createBufferSource e = e\<lparr>nodes := (nodes e)(nextId e := fresh_node), nextId := Suc (nextId e)\<rparr>"

subsection \<open>stop, schedulePlayback, getCurrentTime\<close>

definition stop_music :: command where
  "stop_music e =
     (case musicSource e of
        None \<Rightarrow> (None, e)
      | Some i \<Rightarrow>
          then_do (try_catch (on_node i node_stop))
         (then_do (on_node i node_disconnect)
                  (\<lambda>e'. (None, e'\<lparr>musicSource := None\<rparr>))) e)"

definition stop_voice :: command where
  "stop_voice e =
     (case voiceSource e of
        None \<Rightarrow> (None, e)
      | Some i \<Rightarrow>
          then_do (try_catch (on_node i node_stop))
         (then_do (on_node i node_disconnect)
                  (\<lambda>e'. (None, e'\<lparr>voiceSource := None\<rparr>))) e)"

definition stop :: command where
  "stop = then_do stop_music stop_voice"

text \<open>The two halves of \<^verbatim>\<open>schedulePlayback\<close>, \<^verbatim>\<open>// Schedule Music\<close> and
  \<^verbatim>\<open>// Schedule Voice\<close>.\<close>

definition schedule_music :: "AudioBuffer option \<Rightarrow> real \<Rightarrow> real \<Rightarrow> command" where
  "schedule_music musicBuffer offset now e =
     (case musicBuffer of
        None \<Rightarrow> (None, e)
      | Some mb \<Rightarrow>
          if offset < duration mb then
            (let i = nextId e
             in then_do (\<lambda>e'. (None, (createBufferSource e')\<lparr>musicSource := Some i\<rparr>))
               (then_do (on_node i (node_set_buffer mb))
               (then_do (on_node i node_connect)
                        (on_node i (node_start now offset)))) e)
          else (None, e))"

definition schedule_voice :: "AudioBuffer option \<Rightarrow> real \<Rightarrow> real \<Rightarrow> real \<Rightarrow> command" where
  "schedule_voice voiceBuffer voiceStartTime offset now e =
     (case voiceBuffer of
        None \<Rightarrow> (None, e)
      | Some vb \<Rightarrow>
          (let voiceEnd = voiceStartTime + duration vb
           in if offset < voiceEnd then
                (let i = nextId e
                 in then_do (\<lambda>e'. (None, (createBufferSource e')\<lparr>voiceSource := Some i\<rparr>))
                   (then_do (on_node i (node_set_buffer vb))
                   (then_do (on_node i node_connect)
                            (if offset \<le> voiceStartTime
                             then on_node i (node_start (now + (voiceStartTime - offset)) 0)
                             else (let relativeOffset = offset - voiceStartTime
                                   in on_node i (node_start now relativeOffset))))) e)
              else (None, e)))"

definition schedulePlayback ::
  "AudioBuffer option \<Rightarrow> AudioBuffer option \<Rightarrow> real \<Rightarrow> real \<Rightarrow> real \<Rightarrow> command" where
  "schedulePlayback musicBuffer voiceBuffer voiceStartTime offset now =
     then_do stop
    (then_do (\<lambda>e. (None, e\<lparr>startTime := now - offset\<rparr>))
    (then_do (schedule_music musicBuffer offset now)
             (schedule_voice voiceBuffer voiceStartTime offset now)))"

definition getCurrentTime :: "real \<Rightarrow> engine \<Rightarrow> real" where
  "getCurrentTime now e = now - startTime e"

subsection \<open>Sample quantisation of the WAV encoder\<close>

text \<open>Lines 196 and 197 of \<^verbatim>\<open>bufferToWave\<close>: the clamp, then
  \<^verbatim>\<open>(0.5 + sample < 0 ? sample * 32768 : sample * 32767)|0\<close>. The sum binds tighter
  than the comparison, so the test is \<^verbatim>\<open>(0.5 + sample) < 0\<close>.\<close>

definition quantize :: "number \<Rightarrow> number" where
  "quantize x =
     (let sample = Math_max (Num (- 1)) (Math_min (Num 1) x)
      in Num (real_of_int (sint (ToInt32
           (if js_lt (js_add (Num (1 / 2)) sample) (Num 0)
            then js_mul sample (Num 32768) else js_mul sample (Num 32767))))))"

text \<open>The quantisation as the specification words it: clamp, scale negative values by
  32768 and the others by 32767, truncate toward zero.\<close>

definition spec_quantize :: "real \<Rightarrow> int" where
  "spec_quantize x =
     (let c = max (- 1) (min 1 x)
      in trunc (if c < 0 then c * 32768 else c * 32767))"

subsection \<open>decodeRawPCM\<close>

text \<open>\<^verbatim>\<open>new Int16Array(arrayBuffer)\<close> views the bytes as 16-bit little-endian values, and
  throws a \<^verbatim>\<open>RangeError\<close> when the byte length is odd.\<close>

fun int16s :: "byte list \<Rightarrow> 16 word list" where
  "int16s (lo # hi # bs) = (push_bit 8 (ucast hi) OR ucast lo) # int16s bs"
| "int16s _ = []"

definition newInt16Array :: "byte list \<Rightarrow> error + 16 word list" where
  "newInt16Array arrayBuffer =
     (if odd (length arrayBuffer) then Inl RangeError else Inr (int16s arrayBuffer))"

text \<open>\<^verbatim>\<open>dataInt16[k] / 32768.0\<close>: an index past the end reads \<^verbatim>\<open>undefined\<close>, and the
  quotient is \<^verbatim>\<open>NaN\<close>.\<close>

definition int16_to_float :: "16 word list \<Rightarrow> nat \<Rightarrow> number" where
  "int16_to_float dataInt16 k =
     (if k < length dataInt16 then Num (real_of_int (sint (dataInt16 ! k)) / 32768) else NaN)"

text \<open>\<^verbatim>\<open>channelData[i] = v\<close> on a Float32Array: a write past the end does nothing.\<close>

definition set_sample :: "nat \<Rightarrow> number \<Rightarrow> number list \<Rightarrow> number list" where
  "set_sample i v c = (if i < length c then c[i := v] else c)"

text \<open>The inner loop over \<open>i < frameCount\<close>. The bound is the quotient of line 34, which
  need not be whole, so \<open>i\<close> runs up to its ceiling.\<close>

definition fill_channel :: "16 word list \<Rightarrow> nat \<Rightarrow> real \<Rightarrow> nat \<Rightarrow> number list \<Rightarrow> number list" where
  "fill_channel dataInt16 numChannels frameCount channel c =
     fold (\<lambda>i. set_sample i (int16_to_float dataInt16 (i * numChannels + channel)))
       [0 ..< nat \<lceil>frameCount\<rceil>] c"

definition fill_buffer :: "16 word list \<Rightarrow> nat \<Rightarrow> real \<Rightarrow> AudioBuffer \<Rightarrow> AudioBuffer" where
  "fill_buffer dataInt16 numChannels frameCount b =
     fold (\<lambda>channel b'. b'\<lparr>channelData := (channelData b')
              [channel := fill_channel dataInt16 numChannels frameCount channel
                            (getChannelData b' channel)]\<rparr>)
       [0 ..< numChannels] b"

text \<open>With no channels the quotient of line 34 is infinite or \<^verbatim>\<open>NaN\<close> in JavaScript;
  \<^verbatim>\<open>createBuffer\<close> refuses the channel count whatever the length is.\<close>

definition decodeRawPCM :: "limits \<Rightarrow> byte list \<Rightarrow> real \<Rightarrow> nat \<Rightarrow> error + AudioBuffer" where
  "decodeRawPCM lims arrayBuffer rate numChannels =
     (case newInt16Array arrayBuffer of
        Inl err \<Rightarrow> Inl err
      | Inr dataInt16 \<Rightarrow>
          (let frameCount = real (length dataInt16) / real numChannels
           in case createBuffer lims numChannels frameCount rate of
                Inl err \<Rightarrow> Inl err
              | Inr b \<Rightarrow> Inr (fill_buffer dataInt16 numChannels frameCount b)))"

subsection \<open>bufferToWave\<close>

text \<open>A \<^verbatim>\<open>DataView\<close> write fails with a \<^verbatim>\<open>RangeError\<close> when it does not fit.\<close>

definition view_set :: "nat \<Rightarrow> byte list \<Rightarrow> byte list \<Rightarrow> error + byte list" where
  "view_set p bs view =
     (if p + length bs \<le> length view
      then Inr (take p view @ bs @ drop (p + length bs) view)
      else Inl RangeError)"

text \<open>The header helpers write at the cursor \<open>pos\<close> and advance it.\<close>

type_synonym writer = "byte list \<times> nat \<Rightarrow> error + byte list \<times> nat"

definition setUint16 :: "number \<Rightarrow> writer" where
  "setUint16 data = (\<lambda>(view, pos).
     case view_set pos (le16 (ToUint16 data)) view of
       Inl err \<Rightarrow> Inl err
     | Inr view' \<Rightarrow> Inr (view', pos + 2))"

definition setUint32 :: "number \<Rightarrow> writer" where
  "setUint32 data = (\<lambda>(view, pos).
     case view_set pos (le32 (ToUint32 data)) view of
       Inl err \<Rightarrow> Inl err
     | Inr view' \<Rightarrow> Inr (view', pos + 4))"

definition and_then :: "writer \<Rightarrow> writer \<Rightarrow> writer" where
  "and_then f g s = (case f s of Inl err \<Rightarrow> Inl err | Inr s' \<Rightarrow> g s')"

text \<open>Lines 174 to 188. The last field reads the cursor: \<^verbatim>\<open>length - pos - 4\<close>.\<close>

definition write_header :: "nat \<Rightarrow> nat \<Rightarrow> real \<Rightarrow> writer" where
  "write_header numOfChan len_bytes rate =
     and_then (setUint32 (Num 0x46464952))
    (and_then (setUint32 (Num (real len_bytes - 8)))
    (and_then (setUint32 (Num 0x45564157))
    (and_then (setUint32 (Num 0x20746d66))
    (and_then (setUint32 (Num 16))
    (and_then (setUint16 (Num 1))
    (and_then (setUint16 (Num (real numOfChan)))
    (and_then (setUint32 (Num rate))
    (and_then (setUint32 (Num (rate * 2 * real numOfChan)))
    (and_then (setUint16 (Num (real numOfChan * 2)))
    (and_then (setUint16 (Num 16))
    (and_then (setUint32 (Num 0x61746164))
              (\<lambda>(view, pos). setUint32 (Num (real len_bytes - real pos - 4)) (view, pos)))))))))))))"

text \<open>\<^verbatim>\<open>channels[i][pos]\<close>: past the end of the channel it is \<^verbatim>\<open>undefined\<close>, which
  \<^verbatim>\<open>Math.min\<close> turns into \<^verbatim>\<open>NaN\<close>.\<close>

definition sample_at :: "number list list \<Rightarrow> nat \<Rightarrow> nat \<Rightarrow> number" where
  "sample_at channels i pos =
     (if pos < length (channels ! i) then channels ! i ! pos else NaN)"

text \<open>The body of the inner loop, lines 196 to 199, and the loop over the channels.\<close>

definition write_sample :: "number list list \<Rightarrow> nat \<Rightarrow> nat \<Rightarrow> writer" where
  "write_sample channels pos i = (\<lambda>(view, offset).
     (let sample = quantize (sample_at channels i pos)
      in case view_set (44 + offset) (le16 (ToInt16 sample)) view of
           Inl err \<Rightarrow> Inl err
         | Inr view' \<Rightarrow> Inr (view', offset + 2)))"

fun write_frame :: "number list list \<Rightarrow> nat \<Rightarrow> nat list \<Rightarrow> writer" where
  "write_frame channels pos [] s = Inr s"
| "write_frame channels pos (i # is) s =
     (case write_sample channels pos i s of
        Inl err \<Rightarrow> Inl err
      | Inr s' \<Rightarrow> write_frame channels pos is s')"

text \<open>The loop \<^verbatim>\<open>while(pos < len)\<close> of line 194. It goes on from the value the header
  left in \<open>pos\<close>.\<close>

function write_data ::
  "number list list \<Rightarrow> nat \<Rightarrow> nat \<Rightarrow> nat \<Rightarrow> nat \<Rightarrow> byte list \<Rightarrow> error + byte list" where
  "write_data channels numOfChan len pos offset view =
     (if pos < len then
        (case write_frame channels pos [0 ..< numOfChan] (view, offset) of
           Inl err \<Rightarrow> Inl err
         | Inr (view', offset') \<Rightarrow> write_data channels numOfChan len (pos + 1) offset' view')
      else Inr view)"
  by pat_completeness auto
termination
  by (relation "measure (\<lambda>(channels, numOfChan, len, pos, offset, view). len - pos)") auto

declare write_data.simps [simp del]

definition bufferToWave :: "AudioBuffer \<Rightarrow> nat \<Rightarrow> error + byte list" where
  "bufferToWave abuffer len =
     (let numOfChan = numberOfChannels abuffer;
          len_bytes = len * numOfChan * 2 + 44;
          view = replicate len_bytes 0
      in case write_header numOfChan len_bytes (sampleRate abuffer) (view, 0) of
           Inl err \<Rightarrow> Inl err
         | Inr (view', pos) \<Rightarrow>
             (let channels = map (getChannelData abuffer) [0 ..< numberOfChannels abuffer]
              in write_data channels numOfChan len pos 0 view'))"

text \<open>The encoder as the specification words it: the 44-byte header, then every sample
  of every frame, interleaved by channel.\<close>

definition spec_header :: "nat \<Rightarrow> nat \<Rightarrow> nat \<Rightarrow> byte list" where
  "spec_header frameCount channels rate =
     map (of_nat \<circ> of_char) ''RIFF'' @ le32 (of_nat (44 + frameCount * channels * 2 - 8)) @
     map (of_nat \<circ> of_char) ''WAVE'' @ map (of_nat \<circ> of_char) ''fmt '' @
     le32 16 @ le16 1 @ le16 (of_nat channels) @ le32 (of_nat rate) @
     le32 (of_nat (rate * channels * 2)) @ le16 (of_nat (channels * 2)) @ le16 16 @
     map (of_nat \<circ> of_char) ''data'' @ le32 (of_nat (frameCount * channels * 2))"

definition spec_encodeWav :: "real list \<Rightarrow> nat \<Rightarrow> nat \<Rightarrow> byte list" where
  "spec_encodeWav samples channels rate =
     spec_header (length samples div channels) channels rate @
     concat (map (\<lambda>x. le16 (word_of_int (spec_quantize x))) samples)"

subsection \<open>renderToBlob\<close>

text \<open>Lines 130 to 132, in doubles: the \<^verbatim>\<open>duration\<close> attribute holds the double nearest
  to length over rate, and the sum is rounded. \<^verbatim>\<open>Math.max\<close> is exact.\<close>

definition total_duration :: "AudioBuffer option \<Rightarrow> AudioBuffer option \<Rightarrow> real \<Rightarrow> real" where
  "total_duration musicBuffer voiceBuffer voiceStartTime =
     (let d0 = 0;
          d1 = (case musicBuffer of None \<Rightarrow> d0 | Some mb \<Rightarrow> max d0 (rnd (duration mb)));
          d2 = (case voiceBuffer of None \<Rightarrow> d1
                | Some vb \<Rightarrow> max d1 (rnd (voiceStartTime + rnd (duration vb))))
      in d2)"

text \<open>An \<^verbatim>\<open>OfflineAudioContext\<close>: its format and the sources started in it, in order.
  The constructor converts the length to an unsigned long and refuses a length of 0.\<close>

record offline_context =
  oc_channels :: nat
  oc_length :: nat
  oc_sampleRate :: real
  oc_sources :: "source_node list"

definition newOfflineAudioContext ::
  "limits \<Rightarrow> nat \<Rightarrow> real \<Rightarrow> real \<Rightarrow> error + offline_context" where
  "newOfflineAudioContext lims numChannels len rate =
     (let n = unat (ToUint32 (Num len))
      in if numChannels = 0 \<or> maxChannels lims < numChannels \<or> n = 0 \<or>
            rate < minSampleRate lims \<or> maxSampleRate lims < rate
         then Inl NotSupportedError
         else Inr \<lparr>oc_channels = numChannels, oc_length = n, oc_sampleRate = rate,
                   oc_sources = []\<rparr>)"

text \<open>Lines 145 to 148 and 152 to 155: a new source with the buffer, connected to the
  destination and started at \<open>when'\<close> from its own beginning.\<close>

definition offline_source ::
  "AudioBuffer \<Rightarrow> real \<Rightarrow> offline_context \<Rightarrow> error + offline_context" where
  "offline_source b when' ctx =
     (case node_start when' 0 (fresh_node\<lparr>buffer := Some b, connected := True\<rparr>) of
        Inl err \<Rightarrow> Inl err
      | Inr n \<Rightarrow> Inr (ctx\<lparr>oc_sources := oc_sources ctx @ [n]\<rparr>))"

text \<open>Lines 134 to 156. The length handed to the context is the double product
  \<^verbatim>\<open>duration * 44100\<close>.\<close>

definition render_graph ::
  "limits \<Rightarrow> AudioBuffer option \<Rightarrow> AudioBuffer option \<Rightarrow> real \<Rightarrow> error + offline_context" where
  "render_graph lims musicBuffer voiceBuffer voiceStartTime =
     (let duration = total_duration musicBuffer voiceBuffer voiceStartTime
      in if duration = 0 then Inl NothingToRender
         else
           (case newOfflineAudioContext lims 2 (rnd (duration * 44100)) 44100 of
              Inl err \<Rightarrow> Inl err
            | Inr ctx \<Rightarrow>
                (case (case musicBuffer of None \<Rightarrow> Inr ctx | Some mb \<Rightarrow> offline_source mb 0 ctx) of
                   Inl err \<Rightarrow> Inl err
                 | Inr ctx' \<Rightarrow>
                     (case voiceBuffer of
                        None \<Rightarrow> Inr ctx'
                      | Some vb \<Rightarrow> offline_source vb voiceStartTime ctx'))))"

text \<open>\<^verbatim>\<open>startRendering\<close> resamples and mixes on the platform. The model takes the
  rendered samples as a parameter \<open>mix\<close>, by channel and frame; the rendered buffer has
  the context's channel count, length and rate.\<close>

definition startRendering ::
  "(offline_context \<Rightarrow> nat \<Rightarrow> nat \<Rightarrow> number) \<Rightarrow> offline_context \<Rightarrow> AudioBuffer" where
  "startRendering mix ctx =
     \<lparr>length_frames = oc_length ctx, sampleRate = oc_sampleRate ctx,
      channelData = map (\<lambda>c. map (mix ctx c) [0 ..< oc_length ctx]) [0 ..< oc_channels ctx]\<rparr>"

definition renderToBlob ::
  "limits \<Rightarrow> (offline_context \<Rightarrow> nat \<Rightarrow> nat \<Rightarrow> number) \<Rightarrow>
   AudioBuffer option \<Rightarrow> AudioBuffer option \<Rightarrow> real \<Rightarrow> error + byte list" where
  "renderToBlob lims mix musicBuffer voiceBuffer voiceStartTime =
     (case render_graph lims musicBuffer voiceBuffer voiceStartTime of
        Inl err \<Rightarrow> Inl err
      | Inr ctx \<Rightarrow>
          (let renderedBuffer = startRendering mix ctx
           in bufferToWave renderedBuffer (length_frames renderedBuffer)))"

subsection \<open>Sequences of calls, and example buffers\<close>

text \<open>A client calls \<^verbatim>\<open>schedulePlayback\<close> and \<^verbatim>\<open>stop\<close> in any order. Beside the engine,
  \<open>run\<close> keeps the identity of the first node that the latest \<^verbatim>\<open>schedulePlayback\<close> could
  create: the nodes from there on are the current session's.\<close>

datatype call =
    Schedule "AudioBuffer option" "AudioBuffer option" real real real
  | Stop

fun run :: "call list \<Rightarrow> nat \<times> engine \<Rightarrow> nat \<times> engine" where
  "run [] s = s"
| "run (Schedule mb vb vst offset now # cs) (g, e) =
     run cs (nextId e, snd (schedulePlayback mb vb vst offset now e))"
| "run (Stop # cs) (g, e) = run cs (g, snd (stop e))"

definition active :: "engine \<Rightarrow> nat \<Rightarrow> bool" where
  "active e i \<longleftrightarrow> musicSource e = Some i \<or> voiceSource e = Some i"

definition session_inv :: "nat \<Rightarrow> engine \<Rightarrow> bool" where
  "session_inv g e \<longleftrightarrow>
     g \<le> nextId e \<and>
     (\<forall>i. active e i \<longrightarrow> g \<le> i \<and> i < nextId e) \<and>
     (\<forall>i. connected (nodes e i) \<longrightarrow> active e i) \<and>
     (\<forall>i. \<not> active e i \<longrightarrow> started (nodes e i) \<noteq> None \<longrightarrow> stopped (nodes e i))"

text \<open>What \<^verbatim>\<open>stop\<close> leaves of a node, and what a scheduling half leaves of the node it
  creates.\<close>

definition halted :: "source_node \<Rightarrow> source_node" where
  "halted n = n\<lparr>stopped := (stopped n \<or> started n \<noteq> None), connected := False\<rparr>"

definition placed :: "AudioBuffer \<Rightarrow> real \<Rightarrow> real \<Rightarrow> source_node" where
  "placed b when' off = \<lparr>buffer = Some b, connected = True,
     started = (if when' < 0 \<or> off < 0 then None else Some (when', off)), stopped = False\<rparr>"

definition start_error :: "real \<Rightarrow> real \<Rightarrow> error option" where
  "start_error when' off = (if when' < 0 \<or> off < 0 then Some RangeError else None)"

text \<open>Five seconds of silent stereo music at 44100 Hz, and two seconds of silent mono
  speech at 24000 Hz.\<close>

definition example_music :: AudioBuffer where
  "example_music = \<lparr>length_frames = 220500, sampleRate = 44100,
     channelData = [replicate 220500 (Num 0), replicate 220500 (Num 0)]\<rparr>"

definition example_voice :: AudioBuffer where
  "example_voice = \<lparr>length_frames = 48000, sampleRate = 24000,
     channelData = [replicate 48000 (Num 0)]\<rparr>"

text \<open>A source of the offline graph that plays its whole buffer from time \<open>when'\<close>.\<close>

definition whole :: "AudioBuffer \<Rightarrow> real \<Rightarrow> source_node" where
  "whole b when' = \<lparr>buffer = Some b, connected = True, started = Some (when', 0), stopped = False\<rparr>"

text \<open>Fifteen stereo frames at 44100 Hz; three frames of speech at 24000 Hz, which last
  5.5125 frames at 44100 Hz; and one stereo frame at full scale.\<close>

definition fifteen_frames :: AudioBuffer where
  "fifteen_frames = \<lparr>length_frames = 15, sampleRate = 44100,
     channelData = [replicate 15 (Num 0), replicate 15 (Num 0)]\<rparr>"

definition short_voice :: AudioBuffer where
  "short_voice = \<lparr>length_frames = 3, sampleRate = 24000, channelData = [[Num 0, Num 0, Num 0]]\<rparr>"

definition one_frame :: AudioBuffer where
  "one_frame = \<lparr>length_frames = 1, sampleRate = 44100, channelData = [[Num 1], [Num 1]]\<rparr>"

text \<open>What the encoder writes: the two bytes of one sample, the bytes of one frame, and
  the 44 bytes of the header.\<close>

definition sample_bytes :: "number list list \<Rightarrow> nat \<Rightarrow> nat \<Rightarrow> byte list" where
  "sample_bytes channels pos i = le16 (ToInt16 (quantize (sample_at channels i pos)))"

definition frame_bytes :: "number list list \<Rightarrow> nat \<Rightarrow> nat \<Rightarrow> byte list" where
  "frame_bytes channels numOfChan pos = concat (map (sample_bytes channels pos) [0 ..< numOfChan])"

definition header_bytes :: "nat \<Rightarrow> nat \<Rightarrow> real \<Rightarrow> byte list" where
  "header_bytes numOfChan len_bytes rate =
     le32 (ToUint32 (Num 0x46464952)) @ le32 (ToUint32 (Num (real len_bytes - 8))) @
     le32 (ToUint32 (Num 0x45564157)) @ le32 (ToUint32 (Num 0x20746d66)) @
     le32 (ToUint32 (Num 16)) @ le16 (ToUint16 (Num 1)) @
     le16 (ToUint16 (Num (real numOfChan))) @ le32 (ToUint32 (Num rate)) @
     le32 (ToUint32 (Num (rate * 2 * real numOfChan))) @
     le16 (ToUint16 (Num (real numOfChan * 2))) @ le16 (ToUint16 (Num 16)) @
     le32 (ToUint32 (Num 0x61746164)) @ le32 (ToUint32 (Num (real len_bytes - 44)))"

section \<open>Properties\<close>

subsection \<open>Sample quantisation\<close>

text \<open>What lines 196 and 197 compute for every number: the clamp, a scale of 32768 below
  \<open>-1/2\<close> and of 32767 from there on, and truncation toward zero. The 32-bit wrap of
  \<^verbatim>\<open>|0\<close> never applies.\<close>

lemma trunc_bounds:
  assumes "- 32768 \<le> y" and "y \<le> 32768"
  shows "- 32768 \<le> trunc y \<and> trunc y \<le> 32768"
  using assms unfolding trunc_def by (auto simp: le_floor_iff ceiling_le_iff)

lemma sint_small:
  assumes "- 32768 \<le> k" and "k \<le> 32768"
  shows "sint (word_of_int k :: 32 word) = k"
proof -
  have "signed_take_bit 31 k = k"
    using assms by (intro signed_take_bit_int_eq_self) auto
  then show ?thesis by (simp add: signed_of_int)
qed

lemma quantize_eq:
  "quantize (Num x) =
     (let c = max (- 1) (min 1 x)
      in Num (real_of_int (trunc (if c < - 1 / 2 then c * 32768 else c * 32767))))"
proof -
  define c where "c = max (- 1) (min 1 x)"
  define y where "y = (if c < - 1 / 2 then c * 32768 else c * 32767)"
  have c: "- 1 \<le> c" "c \<le> 1" by (auto simp: c_def)
  have "- 32768 \<le> y \<and> y \<le> 32768" using c by (auto simp: y_def)
  then have "sint (word_of_int (trunc y) :: 32 word) = trunc y"
    using trunc_bounds [of y] by (intro sint_small) auto
  moreover have "quantize (Num x) = Num (real_of_int (sint (word_of_int (trunc y) :: 32 word)))"
  proof -
    have m: "Math_max (Num (- 1)) (Math_min (Num 1) (Num x)) = Num c" by (simp add: c_def)
    show ?thesis unfolding quantize_def m Let_def by (auto simp: y_def)
  qed
  ultimately show ?thesis unfolding Let_def c_def [symmetric] y_def [symmetric] by simp
qed

text \<open>
  C2. The encoder clamps a sample to \<open>[-1, 1]\<close> and maps \<open>-1\<close> to \<open>-32768\<close> and \<open>1\<close> to
  \<open>32767\<close>, as stated. It does not scale every negative value by 32768: the test in the
  code is \<open>0.5 + sample < 0\<close>, so a sample in \<open>[-0.5, 0)\<close> is scaled by 32767. At
  \<open>-0.5\<close> the code writes \<open>-16383\<close> where the stated rule gives \<open>-16384\<close>.
\<close>

theorem quantize_half_scale_differs:
  "quantize (Num (- 1 / 2)) = Num (- 16383) \<and> spec_quantize (- 1 / 2) = - 16384 \<and>
   quantize (Num (- 1)) = Num (- 32768) \<and> quantize (Num 1) = Num 32767"
  by (simp add: quantize_def spec_quantize_def trunc_def)

subsection \<open>What stop and the scheduling halves do\<close>

lemmas command_defs = then_do_def try_catch_def on_node_def node_stop_def node_disconnect_def
  node_start_def node_set_buffer_def node_connect_def createBufferSource_def fresh_node_def

lemma stop_music_eq:
  "stop_music e = (None, case musicSource e of None \<Rightarrow> e
     | Some i \<Rightarrow> e\<lparr>nodes := (nodes e)(i := halted (nodes e i)), musicSource := None\<rparr>)"
  by (auto simp: stop_music_def command_defs halted_def split: option.splits)

lemma stop_voice_eq:
  "stop_voice e = (None, case voiceSource e of None \<Rightarrow> e
     | Some i \<Rightarrow> e\<lparr>nodes := (nodes e)(i := halted (nodes e i)), voiceSource := None\<rparr>)"
  by (auto simp: stop_voice_def command_defs halted_def split: option.splits)

lemma halted_idem: "halted (halted n) = halted n"
  by (auto simp: halted_def)

lemma stop_eq:
  "stop e = (None, e\<lparr>nodes := (\<lambda>i. if musicSource e = Some i \<or> voiceSource e = Some i
                                   then halted (nodes e i) else nodes e i),
                     musicSource := None, voiceSource := None\<rparr>)"
  by (auto simp: stop_def then_do_def stop_music_eq stop_voice_eq halted_idem fun_eq_iff
        split: option.splits)

lemma schedule_music_eq:
  "schedule_music musicBuffer offset now e =
     (case musicBuffer of None \<Rightarrow> (None, e)
      | Some mb \<Rightarrow>
          if offset < duration mb
          then (start_error now offset,
                e\<lparr>nodes := (nodes e)(nextId e := placed mb now offset),
                  nextId := Suc (nextId e), musicSource := Some (nextId e)\<rparr>)
          else (None, e))"
  by (auto simp: schedule_music_def command_defs placed_def start_error_def Let_def
        split: option.splits)

lemma schedule_voice_eq:
  "schedule_voice voiceBuffer voiceStartTime offset now e =
     (case voiceBuffer of None \<Rightarrow> (None, e)
      | Some vb \<Rightarrow>
          if offset < voiceStartTime + duration vb
          then (let w = (if offset \<le> voiceStartTime then now + (voiceStartTime - offset) else now);
                    r = (if offset \<le> voiceStartTime then 0 else offset - voiceStartTime)
                in (start_error w r,
                    e\<lparr>nodes := (nodes e)(nextId e := placed vb w r),
                      nextId := Suc (nextId e), voiceSource := Some (nextId e)\<rparr>))
          else (None, e))"
  by (auto simp: schedule_voice_def command_defs placed_def start_error_def Let_def
        split: option.splits)

lemma schedulePlayback_eq:
  "schedulePlayback musicBuffer voiceBuffer voiceStartTime offset now e =
     (case schedule_music musicBuffer offset now ((snd (stop e))\<lparr>startTime := now - offset\<rparr>) of
        (Some err, e') \<Rightarrow> (Some err, e')
      | (None, e') \<Rightarrow> schedule_voice voiceBuffer voiceStartTime offset now e')"
  by (simp add: schedulePlayback_def then_do_def stop_eq)

lemmas eval_defs = schedulePlayback_eq schedule_music_eq schedule_voice_eq stop_eq placed_def
  start_error_def halted_def init_engine_def fresh_node_def duration_def
  example_music_def example_voice_def

subsection \<open>The playback scheduler\<close>

text \<open>
  C1. Let the playhead \<open>offset\<close> and the clock reading \<open>now\<close> be non-negative, as timeline
  positions and device times are. For a voice buffer \<open>vb\<close>, \<^verbatim>\<open>schedulePlayback\<close>
  completes and holds a voice handle exactly when \<open>offset < vst + duration vb\<close>. The
  handle is then a node created by this call, carrying \<open>vb\<close> and connected. When
  \<open>offset \<le> vst\<close> it was started at \<open>now + (vst - offset)\<close>, a delay of \<open>vst - offset\<close>,
  from position 0 of the buffer; when \<open>vst < offset\<close> it was started at \<open>now\<close> from
  position \<open>offset - vst\<close>.
\<close>

theorem voice_scheduling:
  assumes "0 \<le> now" and "0 \<le> offset"
  shows "case schedulePlayback mb (Some vb) vst offset now e of (r, e') \<Rightarrow>
     r = None \<and>
     (voiceSource e' \<noteq> None \<longleftrightarrow> offset < vst + duration vb) \<and>
     (offset < vst + duration vb \<longrightarrow>
        (\<exists>i. voiceSource e' = Some i \<and> nextId e \<le> i \<and>
             buffer (nodes e' i) = Some vb \<and> connected (nodes e' i) \<and> \<not> stopped (nodes e' i) \<and>
             (offset \<le> vst \<longrightarrow> started (nodes e' i) = Some (now + (vst - offset), 0)) \<and>
             (vst < offset \<longrightarrow> started (nodes e' i) = Some (now, offset - vst))))"
  using assms
  by (auto simp: schedulePlayback_eq schedule_music_eq schedule_voice_eq stop_eq placed_def
        start_error_def Let_def split: option.splits prod.splits if_splits)

theorem voice_scheduling_witness:
  "(0::real) \<le> 10 \<and> (0::real) \<le> 1 \<and>
   (case schedulePlayback (Some example_music) (Some example_voice) 3 1 10 init_engine of
      (r, e') \<Rightarrow> r = None \<and> voiceSource e' = Some 1 \<and> started (nodes e' 1) = Some (12, 0))"
  using voice_scheduling [where now = 10 and offset = 1 and mb = "Some example_music"
      and vb = example_voice and vst = 3 and e = init_engine]
  by (simp add: eval_defs)

text \<open>
  C3. Under the same conditions, for a music buffer \<open>mb\<close>, \<^verbatim>\<open>schedulePlayback\<close>
  completes and holds a music handle exactly when \<open>offset < duration mb\<close>. The handle is
  then a node created by this call, carrying \<open>mb\<close>, connected, and started at \<open>now\<close> from
  position \<open>offset\<close> of the buffer. When the buffer ends at or before \<open>offset\<close>, no node
  is created for it: the only node the call can create is the voice handle.
\<close>

theorem music_scheduling:
  assumes "0 \<le> now" and "0 \<le> offset"
  shows "case schedulePlayback (Some mb) vb vst offset now e of (r, e') \<Rightarrow>
     r = None \<and>
     (musicSource e' \<noteq> None \<longleftrightarrow> offset < duration mb) \<and>
     (offset < duration mb \<longrightarrow>
        (\<exists>i. musicSource e' = Some i \<and> nextId e \<le> i \<and>
             buffer (nodes e' i) = Some mb \<and> connected (nodes e' i) \<and> \<not> stopped (nodes e' i) \<and>
             started (nodes e' i) = Some (now, offset))) \<and>
     (\<not> offset < duration mb \<longrightarrow>
        (\<forall>i. nextId e \<le> i \<and> i < nextId e' \<longrightarrow> voiceSource e' = Some i))"
  using assms
  by (auto simp: schedulePlayback_eq schedule_music_eq schedule_voice_eq stop_eq placed_def
        start_error_def Let_def split: option.splits prod.splits if_splits)

theorem music_scheduling_witness:
  "(0::real) \<le> 10 \<and> (0::real) \<le> 4 \<and>
   (case schedulePlayback (Some example_music) (Some example_voice) 3 4 10 init_engine of
      (r, e') \<Rightarrow> r = None \<and> musicSource e' = Some 0 \<and> started (nodes e' 0) = Some (10, 4))"
  using music_scheduling [where now = 10 and offset = 4 and mb = example_music
      and vb = "Some example_voice" and vst = 3 and e = init_engine]
  by (simp add: eval_defs)

text \<open>
  C10. Whatever the buffers are, \<^verbatim>\<open>schedulePlayback\<close> leaves the anchor \<open>startTime\<close> at
  \<open>now - offset\<close>, so \<^verbatim>\<open>getCurrentTime\<close> read at device time \<open>t\<close> gives
  \<open>offset + (t - now)\<close>. With both buffers null the call completes, holds no handle and
  creates no node, and the anchor is overwritten all the same.
\<close>

theorem anchor_overwritten:
  "startTime (snd (schedulePlayback mb vb vst offset now e)) = now - offset \<and>
   getCurrentTime t (snd (schedulePlayback mb vb vst offset now e)) = offset + (t - now) \<and>
   fst (schedulePlayback None None vst offset now e) = None \<and>
   musicSource (snd (schedulePlayback None None vst offset now e)) = None \<and>
   voiceSource (snd (schedulePlayback None None vst offset now e)) = None \<and>
   nextId (snd (schedulePlayback None None vst offset now e)) = nextId e"
  by (auto simp: schedulePlayback_eq schedule_music_eq schedule_voice_eq stop_eq getCurrentTime_def
        Let_def split: option.splits prod.splits if_splits)

subsection \<open>Stopping\<close>

text \<open>
  C9. In every engine state \<^verbatim>\<open>stop\<close> completes without an exception, and afterwards
  both source fields are null. A node that refuses \<^verbatim>\<open>stop()\<close> does not change this:
  the refusal is caught.
\<close>

theorem stop_never_fails:
  "\<exists>e'. stop e = (None, e') \<and> musicSource e' = None \<and> voiceSource e' = None"
  by (simp add: stop_eq)

subsection \<open>One session at a time\<close>

lemma session_inv_init: "session_inv 0 init_engine"
  by (simp add: session_inv_def init_engine_def active_def fresh_node_def)

lemma session_inv_stop:
  assumes "session_inv g e" and "stop e = (r, e')"
  shows "session_inv g e'"
  using assms
  by (auto simp: session_inv_def active_def stop_eq halted_def split: if_splits)

lemma session_inv_sched:
  assumes "session_inv g e" and "schedulePlayback mb vb vst offset now e = (r, e')"
  shows "session_inv (nextId e) e'"
  using assms
  by (auto simp: session_inv_def active_def schedulePlayback_eq schedule_music_eq
        schedule_voice_eq stop_eq halted_def placed_def Let_def
        split: option.splits prod.splits if_splits)

lemma run_inv: "session_inv g e \<Longrightarrow> (case run cs (g, e) of (g', e') \<Rightarrow> session_inv g' e')"
proof (induction cs arbitrary: g e)
  case Nil
  then show ?case by simp
next
  case (Cons c cs)
  show ?case
  proof (cases c)
    case (Schedule mb vb vst offset now)
    have "session_inv (nextId e) (snd (schedulePlayback mb vb vst offset now e))"
      by (rule session_inv_sched [OF Cons.prems surjective_pairing])
    from Cons.IH [OF this] show ?thesis by (simp add: Schedule)
  next
    case Stop
    have "session_inv g (snd (stop e))"
      by (rule session_inv_stop [OF Cons.prems surjective_pairing])
    from Cons.IH [OF this] show ?thesis by (simp add: Stop)
  qed
qed

text \<open>
  C8. After any sequence of \<^verbatim>\<open>schedulePlayback\<close> and \<^verbatim>\<open>stop\<close> calls on a new engine,
  let \<open>g\<close> be the first node identity of the latest session. Every node still connected
  to the output was created in that session and is one of the engine's two handles.
  Every node of an earlier session is disconnected, and stopped if it was ever started.
\<close>

theorem one_generation_live:
  "case run cs (0, init_engine) of (g, e) \<Rightarrow>
     (\<forall>i. connected (nodes e i) \<longrightarrow>
            g \<le> i \<and> i < nextId e \<and> (musicSource e = Some i \<or> voiceSource e = Some i)) \<and>
     (\<forall>i<g. \<not> connected (nodes e i) \<and> (started (nodes e i) \<noteq> None \<longrightarrow> stopped (nodes e i)))"
proof -
  obtain g e where ge: "run cs (0, init_engine) = (g, e)"
    by (cases "run cs (0, init_engine)")
  have inv: "session_inv g e"
    using run_inv [OF session_inv_init, of cs] by (simp add: ge)
  have old: "\<not> active e i" if "i < g" for i
    using inv that by (auto simp: session_inv_def)
  have a: "connected (nodes e i) \<longrightarrow>
            g \<le> i \<and> i < nextId e \<and> (musicSource e = Some i \<or> voiceSource e = Some i)" for i
    using inv by (auto simp: session_inv_def active_def)
  have b: "\<not> connected (nodes e i) \<and> (started (nodes e i) \<noteq> None \<longrightarrow> stopped (nodes e i))"
    if "i < g" for i
    using inv old [OF that] unfolding session_inv_def by blast
  show ?thesis using a b by (simp add: ge)
qed

theorem one_generation_live_witness:
  "case run [Schedule (Some example_music) (Some example_voice) 3 1 10,
             Schedule (Some example_music) (Some example_voice) 3 4 20] (0, init_engine) of
     (g, e) \<Rightarrow>
       g = 2 \<and> musicSource e = Some 2 \<and> voiceSource e = Some 3 \<and>
       connected (nodes e 2) \<and> connected (nodes e 3) \<and>
       started (nodes e 0) \<noteq> None \<and> stopped (nodes e 0) \<and> \<not> connected (nodes e 0) \<and>
       started (nodes e 1) \<noteq> None \<and> stopped (nodes e 1) \<and> \<not> connected (nodes e 1)"
  using one_generation_live [of "[Schedule (Some example_music) (Some example_voice) 3 1 10,
             Schedule (Some example_music) (Some example_voice) 3 4 20]"]
  by (simp add: eval_defs)

subsection \<open>The PCM decoder\<close>

lemma unat_ToUint32:
  assumes "0 \<le> x" and "x < 2 ^ 32"
  shows "unat (ToUint32 (Num x)) = nat \<lfloor>x\<rfloor>"
proof -
  have "\<lfloor>x\<rfloor> < 2 ^ 32" using assms(2) by (simp add: floor_less_iff)
  moreover have "0 \<le> \<lfloor>x\<rfloor>" using assms(1) by simp
  ultimately have "unat (word_of_int \<lfloor>x\<rfloor> :: 32 word) = nat \<lfloor>x\<rfloor>"
    by (simp add: unat_eq_nat_uint uint_word_of_int take_bit_eq_mod)
  then show ?thesis using assms(1) by (simp add: trunc_def)
qed

lemma length_int16s: "length (int16s bs) = length bs div 2"
  by (induction bs rule: int16s.induct) auto

lemma fold_set_sample:
  "length (fold (\<lambda>i. set_sample i (f i)) [0 ..< m] c) = length c \<and>
   (\<forall>i < length c. fold (\<lambda>i. set_sample i (f i)) [0 ..< m] c ! i = (if i < m then f i else c ! i))"
proof (induction m)
  case 0
  show ?case by simp
next
  case (Suc m)
  then show ?case by (auto simp: set_sample_def nth_list_update)
qed

lemma fill_channel_nth:
  assumes "i < length c" and "i < nat \<lceil>frameCount\<rceil>"
  shows "fill_channel d n frameCount ch c ! i = int16_to_float d (i * n + ch)"
  using fold_set_sample [of "\<lambda>i. int16_to_float d (i * n + ch)" "nat \<lceil>frameCount\<rceil>" c] assms
  by (simp add: fill_channel_def)

lemma length_fill_channel: "length (fill_channel d n frameCount ch c) = length c"
  using fold_set_sample [of "\<lambda>i. int16_to_float d (i * n + ch)" "nat \<lceil>frameCount\<rceil>" c]
  by (simp add: fill_channel_def)

lemma fill_buffer_fold:
  "fold (\<lambda>channel b'. b'\<lparr>channelData := (channelData b')
              [channel := F channel (channelData b' ! channel)]\<rparr>) [0 ..< m] b =
   b\<lparr>channelData := map (\<lambda>k. if k < m then F k (channelData b ! k) else channelData b ! k)
        [0 ..< length (channelData b)]\<rparr>"
proof (induction m)
  case 0
  show ?case by (simp add: map_nth)
next
  case (Suc m)
  let ?f = "\<lambda>k. if k < m then F k (channelData b ! k) else channelData b ! k"
  let ?n = "length (channelData b)"
  have "(map ?f [0 ..< ?n])[m := F m (map ?f [0 ..< ?n] ! m)] =
        map (\<lambda>k. if k < Suc m then F k (channelData b ! k) else channelData b ! k) [0 ..< ?n]"
    by (rule nth_equalityI) (auto simp: nth_list_update less_Suc_eq)
  then show ?case by (simp add: Suc)
qed

lemma fill_buffer_eq:
  "fill_buffer d n frameCount b =
   b\<lparr>channelData := map (\<lambda>k. if k < n then fill_channel d n frameCount k (channelData b ! k)
                               else channelData b ! k) [0 ..< length (channelData b)]\<rparr>"
  unfolding fill_buffer_def getChannelData_def by (rule fill_buffer_fold)

lemma sample_index:
  fixes i c ch L :: nat
  assumes "i < L div c" and "ch < c"
  shows "i * c + ch < L"
proof -
  have "i * c + ch < i * c + c" using assms(2) by simp
  also have "\<dots> = Suc i * c" by simp
  also have "\<dots> \<le> (L div c) * c" using assms(1) by (intro mult_le_mono1) simp
  also have "\<dots> \<le> L" by simp
  finally show ?thesis .
qed

lemma replicate_numeral: "replicate (numeral k) x = x # replicate (pred_numeral k) x"
  by (simp add: numeral_eq_Suc)

lemma upt_0_2: "[0 ..< 2] = [0, 1]"
  by (simp add: numeral_2_eq_2)

text \<open>
  C4, as the code has it. \<^verbatim>\<open>decodeRawPCM\<close> fails on some byte inputs: an odd byte
  length is refused by the \<^verbatim>\<open>Int16Array\<close> constructor with a \<^verbatim>\<open>RangeError\<close>, and an
  input of even length without one complete frame (or a channel count of 0) is refused by
  \<^verbatim>\<open>createBuffer\<close> with a \<^verbatim>\<open>NotSupportedError\<close>. For an even byte length with at least
  one complete frame, and a channel count and sample rate that the context supports, it
  returns a buffer of \<open>(length bytes div 2) div c\<close> frames, the samples of an
  incomplete last frame dropped, in which frame \<open>i\<close> of channel \<open>ch\<close> is the 16-bit
  little-endian sample \<open>i * c + ch\<close> divided by 32768.
\<close>

theorem decode_defined:
  "(odd (length bytes) \<longrightarrow> decodeRawPCM lims bytes rate c = Inl RangeError) \<and>
   (even (length bytes) \<and> (c = 0 \<or> length bytes div 2 < c) \<longrightarrow>
      decodeRawPCM lims bytes rate c = Inl NotSupportedError) \<and>
   (even (length bytes) \<and> 0 < c \<and> c \<le> length bytes div 2 \<and> c \<le> maxChannels lims \<and>
    minSampleRate lims \<le> rate \<and> rate \<le> maxSampleRate lims \<and> length bytes div 2 div c < 2 ^ 32 \<longrightarrow>
      (\<exists>b. decodeRawPCM lims bytes rate c = Inr b \<and>
           length_frames b = length bytes div 2 div c \<and> sampleRate b = rate \<and>
           numberOfChannels b = c \<and>
           (\<forall>ch < c. length (channelData b ! ch) = length bytes div 2 div c \<and>
              (\<forall>i < length bytes div 2 div c.
                 channelData b ! ch ! i =
                   Num (real_of_int (sint (int16s bytes ! (i * c + ch))) / 32768)))))"
proof (intro conjI impI)
  assume "odd (length bytes)"
  then show "decodeRawPCM lims bytes rate c = Inl RangeError"
    by (simp add: decodeRawPCM_def newInt16Array_def)
next
  assume a: "even (length bytes) \<and> (c = 0 \<or> length bytes div 2 < c)"
  let ?L = "length bytes div 2"
  have "unat (ToUint32 (Num (real ?L / real c))) = 0" if "0 < c" "?L < c"
  proof -
    have "real ?L / real c < 1" using that by simp
    moreover have "0 \<le> real ?L / real c" by simp
    ultimately have "\<lfloor>real ?L / real c\<rfloor> = 0" by linarith
    then show ?thesis by (simp add: trunc_def)
  qed
  with a show "decodeRawPCM lims bytes rate c = Inl NotSupportedError"
    by (auto simp: decodeRawPCM_def newInt16Array_def createBuffer_def Let_def length_int16s)
next
  assume a: "even (length bytes) \<and> 0 < c \<and> c \<le> length bytes div 2 \<and> c \<le> maxChannels lims \<and>
    minSampleRate lims \<le> rate \<and> rate \<le> maxSampleRate lims \<and> length bytes div 2 div c < 2 ^ 32"
  let ?L = "length bytes div 2"
  let ?n = "?L div c"
  let ?fc = "real ?L / real c"
  have fl: "\<lfloor>?fc\<rfloor> = int ?n" by (simp add: floor_divide_of_nat_eq)
  have "?fc < 2 ^ 32"
  proof -
    have "\<lfloor>?fc\<rfloor> < 2 ^ 32" using a by (simp add: fl)
    then show ?thesis by (simp add: floor_less_iff)
  qed
  then have n: "unat (ToUint32 (Num ?fc)) = ?n"
    using unat_ToUint32 [of ?fc] by (simp add: fl)
  have npos: "0 < ?n" using a by (simp add: div_greater_zero_iff)
  have ceil: "?n \<le> nat \<lceil>?fc\<rceil>"
  proof -
    have "\<lfloor>?fc\<rfloor> \<le> \<lceil>?fc\<rceil>" by (rule floor_le_ceiling)
    then show ?thesis by (simp add: fl)
  qed
  let ?b0 = "\<lparr>length_frames = ?n, sampleRate = rate,
              channelData = replicate c (replicate ?n (Num 0))\<rparr>"
  have dec: "decodeRawPCM lims bytes rate c = Inr (fill_buffer (int16s bytes) c ?fc ?b0)"
    using a n npos
    by (auto simp: decodeRawPCM_def newInt16Array_def createBuffer_def Let_def length_int16s)
  have cd: "channelData (fill_buffer (int16s bytes) c ?fc ?b0) =
      map (\<lambda>k. fill_channel (int16s bytes) c ?fc k (replicate ?n (Num 0))) [0 ..< c]"
    by (simp add: fill_buffer_eq)
  have per: "length (channelData (fill_buffer (int16s bytes) c ?fc ?b0) ! ch) = ?n \<and>
      (\<forall>i < ?n. channelData (fill_buffer (int16s bytes) c ?fc ?b0) ! ch ! i =
           Num (real_of_int (sint (int16s bytes ! (i * c + ch))) / 32768))" if "ch < c" for ch
  proof (intro conjI allI impI)
    show "length (channelData (fill_buffer (int16s bytes) c ?fc ?b0) ! ch) = ?n"
      using that by (simp add: cd length_fill_channel)
  next
    fix i assume i: "i < ?n"
    have idx: "i * c + ch < length (int16s bytes)"
      using sample_index [OF i that] by (simp add: length_int16s)
    have "channelData (fill_buffer (int16s bytes) c ?fc ?b0) ! ch ! i =
          int16_to_float (int16s bytes) (i * c + ch)"
      using that i ceil by (simp add: cd fill_channel_nth)
    then show "channelData (fill_buffer (int16s bytes) c ?fc ?b0) ! ch ! i =
           Num (real_of_int (sint (int16s bytes ! (i * c + ch))) / 32768)"
      using idx by (simp add: int16_to_float_def)
  qed
  show "\<exists>b. decodeRawPCM lims bytes rate c = Inr b \<and>
           length_frames b = ?n \<and> sampleRate b = rate \<and> numberOfChannels b = c \<and>
           (\<forall>ch < c. length (channelData b ! ch) = ?n \<and>
              (\<forall>i < ?n. channelData b ! ch ! i =
                   Num (real_of_int (sint (int16s bytes ! (i * c + ch))) / 32768)))"
    using per by (simp add: dec fill_buffer_eq numberOfChannels_def)
qed

text \<open>Three samples for two channels: one frame is decoded, the third sample is dropped.\<close>

theorem decode_defined_witness:
  "even (length [0x00, 0x80, 0xFF, 0x7F, 0x01, 0x00 :: byte]) \<and> (0::nat) < 2 \<and>
   (2::nat) \<le> length [0x00, 0x80, 0xFF, 0x7F, 0x01, 0x00 :: byte] div 2 \<and>
   2 \<le> maxChannels minimal_limits \<and> minSampleRate minimal_limits \<le> 24000 \<and>
   24000 \<le> maxSampleRate minimal_limits \<and>
   length [0x00, 0x80, 0xFF, 0x7F, 0x01, 0x00 :: byte] div 2 div 2 < (2::nat) ^ 32 \<and>
   decodeRawPCM minimal_limits [0x00, 0x80, 0xFF, 0x7F, 0x01, 0x00] 24000 2 =
     Inr \<lparr>length_frames = 1, sampleRate = 24000,
          channelData = [[Num (- 1)], [Num (32767 / 32768)]]\<rparr>"
  using decode_defined [of "[0x00, 0x80, 0xFF, 0x7F, 0x01, 0x00]" minimal_limits 24000 2]
  by (simp add: decodeRawPCM_def newInt16Array_def createBuffer_def minimal_limits_def
        fill_buffer_def fill_channel_def set_sample_def int16_to_float_def getChannelData_def
        trunc_def replicate_numeral upt_0_2 Let_def)

text \<open>C4 as stated fails: three bytes of mono PCM are not decoded, the call throws.\<close>

theorem decode_odd_counterexample:
  "decodeRawPCM minimal_limits [0, 0, 0] 24000 1 = Inl RangeError"
  by (simp add: decodeRawPCM_def newInt16Array_def)

subsection \<open>The WAV encoder\<close>

text \<open>What \<^verbatim>\<open>bufferToWave\<close> returns for every buffer and length, in three steps: the
  header, one frame, and the loop over the frames. No write falls outside the view, so the
  encoder never fails.\<close>

lemma length_le16 [simp]: "length (le16 w) = 2"
  by (simp add: le16_def)

lemma length_le32 [simp]: "length (le32 w) = 4"
  by (simp add: le32_def)

lemma length_sample_bytes [simp]: "length (sample_bytes channels pos i) = 2"
  by (simp add: sample_bytes_def)

lemma write_header_eq:
  "write_header n (44 + m) rate (replicate (44 + m) 0, 0) =
     Inr (header_bytes n (44 + m) rate @ replicate m 0, 44)"
  by (simp add: write_header_def and_then_def setUint32_def setUint16_def view_set_def
        header_bytes_def le32_def le16_def replicate_add replicate_numeral)

lemma take_patch:
  assumes "p \<le> length view"
  shows "take (p + length b) (take p view @ b @ rest) = take p view @ b"
  using assms by (simp add: min_def)

lemma drop_patch:
  assumes "p + length b \<le> j" and "p \<le> length view"
  shows "drop j (take p view @ b @ drop (p + length b) view) = drop j view"
proof -
  have "j - p - length b + (p + length b) = j" using assms(1) by simp
  then show ?thesis using assms by (simp add: min_def)
qed

lemma write_sample_eq:
  assumes "44 + offset + 2 \<le> length view"
  shows "write_sample channels pos i (view, offset) =
     Inr (take (44 + offset) view @ sample_bytes channels pos i @ drop (44 + offset + 2) view,
          offset + 2)"
  using assms by (simp add: write_sample_def view_set_def sample_bytes_def Let_def)

lemma write_frame_eq:
  assumes "44 + offset + 2 * length is \<le> length view"
  shows "write_frame channels pos is (view, offset) =
     Inr (take (44 + offset) view @ concat (map (sample_bytes channels pos) is) @
          drop (44 + offset + 2 * length is) view, offset + 2 * length is)"
  using assms
proof (induction "is" arbitrary: view offset)
  case Nil
  then show ?case by simp
next
  case (Cons i "is")
  let ?v = "take (44 + offset) view @ sample_bytes channels pos i @ drop (44 + offset + 2) view"
  have len: "length ?v = length view" using Cons.prems by simp
  have step: "write_sample channels pos i (view, offset) = Inr (?v, offset + 2)"
    using Cons.prems by (intro write_sample_eq) simp
  have fits: "44 + (offset + 2) + 2 * length is \<le> length ?v"
    using Cons.prems by (simp add: len)
  have t: "take (44 + (offset + 2)) ?v = take (44 + offset) view @ sample_bytes channels pos i"
    using Cons.prems by simp
  have d: "drop (44 + (offset + 2) + 2 * length is) ?v =
           drop (44 + offset + 2 * length (i # is)) view"
    using Cons.prems by (simp add: add.commute add.left_commute)
  have "write_frame channels pos (i # is) (view, offset) =
        write_frame channels pos is (?v, offset + 2)"
    by (simp add: step)
  also have "\<dots> = Inr (take (44 + (offset + 2)) ?v @ concat (map (sample_bytes channels pos) is) @
          drop (44 + (offset + 2) + 2 * length is) ?v, offset + 2 + 2 * length is)"
    by (rule Cons.IH [OF fits])
  also have "\<dots> = Inr (take (44 + offset) view @
          concat (map (sample_bytes channels pos) (i # is)) @
          drop (44 + offset + 2 * length (i # is)) view, offset + 2 * length (i # is))"
    unfolding t d by simp
  finally show ?case .
qed

lemma length_frame_bytes [simp]: "length (frame_bytes channels n pos) = 2 * n"
  by (simp add: frame_bytes_def length_concat comp_def sum_list_triv)

lemma write_data_eq:
  assumes "44 + offset + 2 * n * (len - pos) \<le> length view"
  shows "write_data channels n len pos offset view =
     Inr (take (44 + offset) view @ concat (map (frame_bytes channels n) [pos ..< len]) @
          drop (44 + offset + 2 * n * (len - pos)) view)"
  using assms
proof (induction channels n len pos offset view rule: write_data.induct)
  case (1 channels n len pos offset view)
  show ?case
  proof (cases "pos < len")
    case False
    then show ?thesis by (subst write_data.simps) simp
  next
    case True
    let ?v = "take (44 + offset) view @ frame_bytes channels n pos @ drop (44 + offset + 2 * n) view"
    have more: "2 * n + 2 * n * (len - (pos + 1)) = 2 * n * (len - pos)"
    proof -
      have "len - pos = Suc (len - (pos + 1))" using True by simp
      then show ?thesis by simp
    qed
    have room: "44 + offset + 2 * n \<le> length view"
      using "1.prems" more by linarith
    have frame: "write_frame channels pos [0 ..< n] (view, offset) = Inr (?v, offset + 2 * n)"
      using write_frame_eq [of offset "[0 ..< n]" view channels pos] room
      by (simp add: frame_bytes_def)
    have len: "length ?v = length view" using room by simp
    have fits: "44 + (offset + 2 * n) + 2 * n * (len - (pos + 1)) \<le> length ?v"
      using "1.prems" more unfolding len by linarith
    have t: "take (44 + (offset + 2 * n)) ?v = take (44 + offset) view @ frame_bytes channels n pos"
      using room by simp
    have d: "drop (44 + (offset + 2 * n) + 2 * n * (len - (pos + 1))) ?v =
             drop (44 + offset + 2 * n * (len - pos)) view"
    proof -
      have e: "44 + (offset + 2 * n) + 2 * n * (len - (pos + 1)) = 44 + offset + 2 * n * (len - pos)"
        using more by linarith
      have "drop (44 + offset + 2 * n * (len - pos))
              (take (44 + offset) view @ frame_bytes channels n pos @
               drop (44 + offset + length (frame_bytes channels n pos)) view) =
            drop (44 + offset + 2 * n * (len - pos)) view"
      proof (rule drop_patch)
        have "2 * n \<le> 2 * n * (len - pos)" using more by linarith
        then show "44 + offset + length (frame_bytes channels n pos)
            \<le> 44 + offset + 2 * n * (len - pos)" by simp
        show "44 + offset \<le> length view" using room by linarith
      qed
      then show ?thesis unfolding e by simp
    qed
    have u: "[pos ..< len] = pos # [pos + 1 ..< len]"
      using True by (simp add: upt_conv_Cons)
    have "write_data channels n len pos offset view =
          write_data channels n len (pos + 1) (offset + 2 * n) ?v"
      using True by (subst write_data.simps) (simp add: frame)
    also have "\<dots> = Inr (take (44 + (offset + 2 * n)) ?v @
          concat (map (frame_bytes channels n) [pos + 1 ..< len]) @
          drop (44 + (offset + 2 * n) + 2 * n * (len - (pos + 1))) ?v)"
      by (rule "1.IH" [OF True frame refl fits])
    also have "\<dots> = Inr (take (44 + offset) view @
          concat (map (frame_bytes channels n) [pos ..< len]) @
          drop (44 + offset + 2 * n * (len - pos)) view)"
      unfolding t d u by simp
    finally show ?thesis .
  qed
qed

lemma length_header_bytes [simp]: "length (header_bytes n l r) = 44"
  by (simp add: header_bytes_def)

text \<open>The result is the header, then the frames from 44 on, then zeros in place of the
  frames that were skipped.\<close>

lemma bufferToWave_eq:
  "bufferToWave b len =
     Inr (header_bytes (numberOfChannels b) (len * numberOfChannels b * 2 + 44) (sampleRate b) @
          concat (map (frame_bytes (channelData b) (numberOfChannels b)) [44 ..< len]) @
          replicate (2 * numberOfChannels b * min len 44) 0)"
proof -
  let ?n = "numberOfChannels b"
  let ?m = "len * ?n * 2"
  let ?H = "header_bytes ?n (?m + 44) (sampleRate b)"
  have hdr: "write_header ?n (?m + 44) (sampleRate b) (replicate (?m + 44) 0, 0) =
             Inr (?H @ replicate ?m 0, 44)"
    using write_header_eq [of ?n ?m "sampleRate b"] by (simp add: add.commute)
  have chs: "map (getChannelData b) [0 ..< ?n] = channelData b"
    by (rule nth_equalityI) (simp_all add: getChannelData_def numberOfChannels_def)
  have le: "2 * ?n * (len - 44) \<le> ?m"
    by (simp add: algebra_simps)
  have rest: "?m - 2 * ?n * (len - 44) = 2 * ?n * min len 44"
    by (cases "len \<le> 44") (auto simp: min_def algebra_simps)
  have "write_data (channelData b) ?n len 44 0 (?H @ replicate ?m 0) =
        Inr (take (44 + 0) (?H @ replicate ?m 0) @
             concat (map (frame_bytes (channelData b) ?n) [44 ..< len]) @
             drop (44 + 0 + 2 * ?n * (len - 44)) (?H @ replicate ?m 0))"
    using le by (intro write_data_eq) simp
  also have "\<dots> = Inr (?H @ concat (map (frame_bytes (channelData b) ?n) [44 ..< len]) @
             replicate (2 * ?n * min len 44) 0)"
    using rest by simp
  finally show ?thesis
    by (simp add: bufferToWave_def Let_def hdr chs)
qed

lemma bufferToWave_length:
  "\<exists>bytes. bufferToWave b len = Inr bytes \<and> length bytes = 44 + len * numberOfChannels b * 2"
proof -
  have "length (concat (map (frame_bytes (channelData b) (numberOfChannels b)) [44 ..< len])) =
        (len - 44) * (2 * numberOfChannels b)"
    by (simp add: length_concat comp_def sum_list_triv)
  moreover have "(len - 44) * (2 * numberOfChannels b) + 2 * numberOfChannels b * min len 44 =
        len * numberOfChannels b * 2"
    by (cases "len \<le> 44") (auto simp: min_def algebra_simps)
  ultimately show ?thesis
    by (simp add: bufferToWave_eq)
qed

text \<open>
  C7. For one stereo frame at 44100 Hz with both samples 1.0 the encoder returns 48
  bytes, and the 44 header bytes are as stated. The data bytes are not: the frame loop
  starts at \<open>pos = 44\<close>, where the header left the cursor, so frames 0 to 43 are never
  read and the four data bytes stay 0. The stated encoder writes \<open>FF 7F FF 7F\<close>.
\<close>

theorem wave_data_not_written:
  "bufferToWave one_frame 1 = Inr
     [0x52, 0x49, 0x46, 0x46, 40, 0, 0, 0, 0x57, 0x41, 0x56, 0x45, 0x66, 0x6D, 0x74, 0x20,
      16, 0, 0, 0, 1, 0, 2, 0, 0x44, 0xAC, 0, 0, 0x10, 0xB1, 2, 0, 4, 0, 16, 0,
      0x64, 0x61, 0x74, 0x61, 4, 0, 0, 0, 0, 0, 0, 0] \<and>
   spec_encodeWav [1, 1] 2 44100 =
     [0x52, 0x49, 0x46, 0x46, 40, 0, 0, 0, 0x57, 0x41, 0x56, 0x45, 0x66, 0x6D, 0x74, 0x20,
      16, 0, 0, 0, 1, 0, 2, 0, 0x44, 0xAC, 0, 0, 0x10, 0xB1, 2, 0, 4, 0, 16, 0,
      0x64, 0x61, 0x74, 0x61, 4, 0, 0, 0, 0xFF, 0x7F, 0xFF, 0x7F]"
proof
  show "bufferToWave one_frame 1 = Inr
     [0x52, 0x49, 0x46, 0x46, 40, 0, 0, 0, 0x57, 0x41, 0x56, 0x45, 0x66, 0x6D, 0x74, 0x20,
      16, 0, 0, 0, 1, 0, 2, 0, 0x44, 0xAC, 0, 0, 0x10, 0xB1, 2, 0, 4, 0, 16, 0,
      0x64, 0x61, 0x74, 0x61, 4, 0, 0, 0, 0, 0, 0, 0]"
    by (simp add: bufferToWave_def numberOfChannels_def write_header_def and_then_def
          setUint32_def setUint16_def view_set_def le32_def le16_def trunc_def
          replicate_numeral one_frame_def write_data.simps)
next
  show "spec_encodeWav [1, 1] 2 44100 =
     [0x52, 0x49, 0x46, 0x46, 40, 0, 0, 0, 0x57, 0x41, 0x56, 0x45, 0x66, 0x6D, 0x74, 0x20,
      16, 0, 0, 0, 1, 0, 2, 0, 0x44, 0xAC, 0, 0, 0x10, 0xB1, 2, 0, 4, 0, 16, 0,
      0x64, 0x61, 0x74, 0x61, 4, 0, 0, 0, 0xFF, 0x7F, 0xFF, 0x7F]"
    by (simp add: spec_encodeWav_def spec_header_def spec_quantize_def le32_def le16_def
          trunc_def)
qed

subsection \<open>Double precision\<close>

text \<open>The exponent brackets its argument between two powers of 2, so a rounded positive
  number is within one part in \<open>2 ^ 53\<close> of the number, and is positive.\<close>

lemma expo_bounds:
  "0 < x \<Longrightarrow> 2 powi (expo x) \<le> x \<and> x < 2 powi (expo x + 1)"
proof (induction x rule: expo.induct)
  case (1 x)
  show ?case
  proof (cases "x < 1")
    case True
    have e: "expo x = expo (x * 2) - 1"
      using "1.prems" True by (subst expo.simps) simp
    have "2 powi (expo (x * 2)) \<le> x * 2 \<and> x * 2 < 2 powi (expo (x * 2) + 1)"
      using "1.IH"(1) "1.prems" True by simp
    then show ?thesis
      unfolding e by (simp add: power_int_diff power_int_add)
  next
    case False
    show ?thesis
    proof (cases "2 \<le> x")
      case True
      have e: "expo x = expo (x / 2) + 1"
        using "1.prems" False True by (subst expo.simps) simp
      have "2 powi (expo (x / 2)) \<le> x / 2 \<and> x / 2 < 2 powi (expo (x / 2) + 1)"
        using "1.IH"(2) "1.prems" False True by simp
      then show ?thesis
        unfolding e by (simp add: power_int_add)
    next
      case b: False
      have "expo x = 0"
        using "1.prems" False b by (subst expo.simps) simp
      then show ?thesis using False b by simp
    qed
  qed
qed

lemma round_even_near: "\<bar>of_int (round_even y) - y\<bar> \<le> 1 / 2"
proof -
  have "of_int \<lfloor>y\<rfloor> \<le> y" "y < of_int \<lfloor>y\<rfloor> + 1" by linarith+
  then show ?thesis by (auto simp: round_even_def Let_def)
qed

lemma rnd_near:
  assumes "0 < x"
  shows "\<bar>rnd x - x\<bar> \<le> x / 2 ^ 53"
proof -
  define u :: real where "u = 2 powi (expo x - 52)"
  have upos: "0 < u" by (simp add: u_def)
  have "2 powi (expo x) \<le> x" using expo_bounds [OF assms] by simp
  moreover have "2 powi (expo x) = u * 2 ^ 52" by (simp add: u_def power_int_diff)
  ultimately have ux: "u * 2 ^ 52 \<le> x" by simp
  have r: "rnd x = of_int (round_even (x / u)) * u"
    using assms by (simp add: rnd_def u_def Let_def)
  have "\<bar>rnd x - x\<bar> = \<bar>of_int (round_even (x / u)) - x / u\<bar> * u"
  proof -
    have "rnd x - x = (of_int (round_even (x / u)) - x / u) * u"
      using upos by (simp add: r algebra_simps)
    then show ?thesis using upos by (simp add: abs_mult)
  qed
  also have "\<dots> \<le> 1 / 2 * u"
    using round_even_near [of "x / u"] upos by (intro mult_right_mono) auto
  also have "\<dots> \<le> x / 2 ^ 53"
    using ux by simp
  finally show ?thesis .
qed

lemma rnd_0 [simp]: "rnd 0 = 0"
  by (simp add: rnd_def)

lemma rnd_lower: "0 \<le> x \<Longrightarrow> x * (1 - 1 / 2 ^ 53) \<le> rnd x"
proof (cases "x = 0")
  case True
  then show ?thesis by simp
next
  case False
  assume "0 \<le> x"
  with False have "\<bar>rnd x - x\<bar> \<le> x / 2 ^ 53" by (intro rnd_near) simp
  then have "x - x / 2 ^ 53 \<le> rnd x" by linarith
  moreover have "x * (1 - 1 / 2 ^ 53) = x - x / 2 ^ 53" by (simp add: right_diff_distrib)
  ultimately show ?thesis by simp
qed

lemma rnd_upper: "0 \<le> x \<Longrightarrow> rnd x \<le> x * (1 + 1 / 2 ^ 53)"
proof (cases "x = 0")
  case True
  then show ?thesis by simp
next
  case False
  assume "0 \<le> x"
  with False have "\<bar>rnd x - x\<bar> \<le> x / 2 ^ 53" by (intro rnd_near) simp
  then have "rnd x \<le> x + x / 2 ^ 53" by linarith
  moreover have "x * (1 + 1 / 2 ^ 53) = x + x / 2 ^ 53" by (simp add: distrib_left)
  ultimately show ?thesis by simp
qed

lemma rnd_pos: "0 < x \<Longrightarrow> 0 < rnd x"
proof -
  assume x: "0 < x"
  have "0 < x * (1 - 1 / 2 ^ 53)" using x by simp
  with rnd_lower [of x] x show ?thesis by linarith
qed

lemma ulo_uhi: "0 \<le> ulo" "ulo \<le> 1" "1 \<le> uhi" "0 \<le> uhi"
  by (simp_all add: ulo_def uhi_def)

lemma ulo_cube: "1 - 1 / 2 ^ 51 \<le> ulo * (ulo * ulo)"
  by (simp add: ulo_def)

lemma uhi_cube: "uhi * (uhi * uhi) \<le> 1 + 1 / 2 ^ 51"
  by (simp add: uhi_def)

text \<open>Rounding a number that lies between \<open>a * l\<close> and \<open>a * h\<close>.\<close>

lemma rnd_chain:
  assumes "0 \<le> a" and "0 \<le> l" and "a * l \<le> y" and "y \<le> a * h"
  shows "a * (l * ulo) \<le> rnd y \<and> rnd y \<le> a * (h * uhi)"
proof -
  have "0 \<le> a * l" using assms(1,2) by simp
  then have y0: "0 \<le> y" using assms(3) by linarith
  have "a * l * ulo \<le> y * ulo"
    using assms(3) ulo_uhi(1) by (rule mult_right_mono)
  also have "\<dots> \<le> rnd y"
    using rnd_lower [OF y0] by (simp add: ulo_def)
  finally have lower: "a * (l * ulo) \<le> rnd y" by (simp add: mult.assoc)
  have "rnd y \<le> y * uhi"
    using rnd_upper [OF y0] by (simp add: uhi_def)
  also have "\<dots> \<le> a * h * uhi"
    using assms(4) ulo_uhi(4) by (rule mult_right_mono)
  finally have "rnd y \<le> a * (h * uhi)" by (simp add: mult.assoc)
  with lower show ?thesis by simp
qed

subsection \<open>The offline renderer\<close>

lemma duration_pos: "wf_buffer b \<Longrightarrow> 0 < duration b"
  by (simp add: wf_buffer_def duration_def)

text \<open>The double total duration is within two roundings of the exact one.\<close>

lemma total_duration_bounds:
  assumes "wf_source mb" and "wf_source vb" and "0 \<le> vst"
    and "T = max (case mb of None \<Rightarrow> 0 | Some b \<Rightarrow> duration b)
                 (case vb of None \<Rightarrow> 0 | Some b \<Rightarrow> vst + duration b)"
  shows "T * (ulo * ulo) \<le> total_duration mb vb vst \<and>
         total_duration mb vb vst \<le> T * (uhi * uhi) \<and> 0 \<le> T \<and>
         (total_duration mb vb vst = 0 \<longleftrightarrow> mb = None \<and> vb = None)"
proof -
  define A where "A = (case mb of None \<Rightarrow> 0 | Some b \<Rightarrow> duration b)"
  define B where "B = (case vb of None \<Rightarrow> 0 | Some b \<Rightarrow> vst + duration b)"
  define A' where "A' = (case mb of None \<Rightarrow> 0 | Some b \<Rightarrow> rnd (duration b))"
  define B' where "B' = (case vb of None \<Rightarrow> 0 | Some b \<Rightarrow> rnd (vst + rnd (duration b)))"
  have sq: "ulo * ulo \<le> ulo" "uhi \<le> uhi * uhi" "0 \<le> ulo * ulo"
    using ulo_uhi by (simp_all add: mult_left_le mult_le_cancel_left1)
  have A: "A * (ulo * ulo) \<le> A' \<and> A' \<le> A * (uhi * uhi) \<and> 0 \<le> A \<and> (0 < A' \<longleftrightarrow> mb \<noteq> None)"
  proof (cases mb)
    case None
    then show ?thesis by (simp add: A_def A'_def)
  next
    case (Some b)
    have d: "0 < duration b" using assms(1) Some by (simp add: duration_pos)
    have r: "duration b * (1 * ulo) \<le> rnd (duration b) \<and> rnd (duration b) \<le> duration b * (1 * uhi)"
      using d by (intro rnd_chain) simp_all
    have "duration b * (ulo * ulo) \<le> duration b * ulo"
      using d sq(1) by (intro mult_left_mono) simp_all
    moreover have "duration b * uhi \<le> duration b * (uhi * uhi)"
      using d sq(2) by (intro mult_left_mono) simp_all
    ultimately have "duration b * (ulo * ulo) \<le> rnd (duration b)"
        "rnd (duration b) \<le> duration b * (uhi * uhi)"
      using r by linarith+
    then show ?thesis
      using d rnd_pos [OF d] by (simp add: A_def A'_def Some)
  qed
  have B: "B * (ulo * ulo) \<le> B' \<and> B' \<le> B * (uhi * uhi) \<and> 0 \<le> B \<and> (0 < B' \<longleftrightarrow> vb \<noteq> None)"
  proof (cases vb)
    case None
    then show ?thesis by (simp add: B_def B'_def)
  next
    case (Some b)
    have d: "0 < duration b" using assms(2) Some by (simp add: duration_pos)
    have r: "duration b * (1 * ulo) \<le> rnd (duration b) \<and> rnd (duration b) \<le> duration b * (1 * uhi)"
      using d by (intro rnd_chain) simp_all
    have "vst * ulo \<le> vst" "vst \<le> vst * uhi"
      using assms(3) ulo_uhi by (simp_all add: mult_left_le mult_le_cancel_left1)
    then have s: "(vst + duration b) * ulo \<le> vst + rnd (duration b)"
        "vst + rnd (duration b) \<le> (vst + duration b) * uhi"
      using r by (simp_all add: distrib_right)
    have c: "(vst + duration b) * (ulo * ulo) \<le> rnd (vst + rnd (duration b)) \<and>
             rnd (vst + rnd (duration b)) \<le> (vst + duration b) * (uhi * uhi)"
      using assms(3) d ulo_uhi(1) s by (intro rnd_chain) simp_all
    have "0 < vst + rnd (duration b)" using assms(3) rnd_pos [OF d] by linarith
    then have "0 < rnd (vst + rnd (duration b))" by (rule rnd_pos)
    then show ?thesis
      using c d assms(3) by (simp add: B_def B'_def Some)
  qed
  have A'0: "0 \<le> A'" and B'0: "0 \<le> B'"
    using A B sq(3) by (meson mult_nonneg_nonneg order_trans)+
  have td: "total_duration mb vb vst = max A' B'"
    using A'0 B'0 by (auto simp: total_duration_def Let_def A'_def B'_def max_def split: option.splits)
  have T: "T = max A B" by (simp add: assms(4) A_def B_def)
  have lower: "T * (ulo * ulo) \<le> max A' B'"
    using A B unfolding T by (cases "A \<le> B") (auto simp: max_def)
  have upper: "max A' B' \<le> T * (uhi * uhi)"
  proof -
    have "A * (uhi * uhi) \<le> max A B * (uhi * uhi)" "B * (uhi * uhi) \<le> max A B * (uhi * uhi)"
      using ulo_uhi(4) by (simp_all add: mult_right_mono)
    then show ?thesis using A B unfolding T by (auto simp: max_def)
  qed
  have zero: "max A' B' = 0 \<longleftrightarrow> mb = None \<and> vb = None"
    using A B A'0 B'0 by (auto simp: max_def)
  have "0 \<le> T" using A B unfolding T by (auto simp: max_def)
  with lower upper zero show ?thesis by (simp add: td)
qed

lemma total_duration_zero:
  assumes "wf_source mb" and "wf_source vb" and "0 \<le> vst"
  shows "total_duration mb vb vst = 0 \<longleftrightarrow> mb = None \<and> vb = None"
  using total_duration_bounds [OF assms refl] by simp

lemma render_graph_empty:
  "render_graph lims mb vb vst = Inl NothingToRender \<longleftrightarrow> total_duration mb vb vst = 0"
  by (auto simp: render_graph_def Let_def newOfflineAudioContext_def offline_source_def
        node_start_def fresh_node_def split: sum.splits option.splits if_splits)

text \<open>
  C5. For buffers as the platform hands them out and a voice start time that is not
  negative, \<^verbatim>\<open>renderToBlob\<close> fails with "Nothing to render" exactly when both buffers
  are null. The failure is the call's whole result: no bytes are returned.
\<close>

theorem empty_mix_error:
  assumes "wf_source mb" and "wf_source vb" and "0 \<le> vst"
  shows "renderToBlob lims mix mb vb vst = Inl NothingToRender \<longleftrightarrow> mb = None \<and> vb = None"
proof -
  have "renderToBlob lims mix mb vb vst = Inl NothingToRender \<longleftrightarrow>
        render_graph lims mb vb vst = Inl NothingToRender"
    by (simp add: renderToBlob_def Let_def bufferToWave_eq split: sum.splits)
  then show ?thesis
    by (simp add: render_graph_empty total_duration_zero [OF assms])
qed

theorem empty_mix_error_witness:
  "wf_source None \<and> wf_source (Some example_music) \<and> (0::real) \<le> 0 \<and>
   renderToBlob minimal_limits (\<lambda>ctx c i. Num 0) None None 0 = Inl NothingToRender \<and>
   renderToBlob minimal_limits (\<lambda>ctx c i. Num 0) (Some example_music) None 0 \<noteq> Inl NothingToRender"
  using empty_mix_error [where mb = None and vb = None and vst = 0 and lims = minimal_limits
      and mix = "\<lambda>ctx c i. Num 0"]
    empty_mix_error [where mb = "Some example_music" and vb = None and vst = 0
      and lims = minimal_limits and mix = "\<lambda>ctx c i. Num 0"]
  by (simp add: wf_buffer_def example_music_def)

text \<open>
  C6, as the code has it. Let \<open>T\<close> be the larger of the music duration and the voice end
  \<open>vst + duration\<close>, each taken as 0 for a null buffer, with \<open>vst\<close> not negative, and let
  \<open>P\<close> be the product of the total duration and 44100 as the code computes it in doubles.
  The offline context is stereo at 44100 Hz, and its length is \<open>P\<close> with the fraction
  dropped, provided that \<open>P\<close> is at least 1 and below \<open>2 ^ 32\<close>. \<open>P\<close> is within one part
  in \<open>2 ^ 51\<close> of \<open>T * 44100\<close>, so the length is less than one frame below it and not
  above it by more than that part. The music source is started at time 0 and the voice
  source at \<open>vst\<close>, each from the beginning of its buffer with no end set. The rendered
  buffer has the context's format, and \<^verbatim>\<open>renderToBlob\<close> returns 44 bytes and 4 more for
  every frame.
\<close>

theorem render_format:
  assumes "conforming lims" and "wf_source mb" and "wf_source vb" and "0 \<le> vst"
    and "T = max (case mb of None \<Rightarrow> 0 | Some b \<Rightarrow> duration b)
                 (case vb of None \<Rightarrow> 0 | Some b \<Rightarrow> vst + duration b)"
    and "P = rnd (total_duration mb vb vst * 44100)"
    and "1 \<le> P" and "P < 2 ^ 32"
  shows "(\<exists>ctx. render_graph lims mb vb vst = Inr ctx \<and>
           oc_channels ctx = 2 \<and> oc_sampleRate ctx = 44100 \<and> oc_length ctx = nat \<lfloor>P\<rfloor> \<and>
           oc_sources ctx = (case mb of None \<Rightarrow> [] | Some b \<Rightarrow> [whole b 0]) @
                            (case vb of None \<Rightarrow> [] | Some b \<Rightarrow> [whole b vst]) \<and>
           numberOfChannels (startRendering mix ctx) = 2 \<and>
           sampleRate (startRendering mix ctx) = 44100 \<and>
           length_frames (startRendering mix ctx) = nat \<lfloor>P\<rfloor>) \<and>
         T * 44100 * (1 - 1 / 2 ^ 51) \<le> P \<and> P \<le> T * 44100 * (1 + 1 / 2 ^ 51) \<and>
         T * 44100 * (1 - 1 / 2 ^ 51) - 1 < real (nat \<lfloor>P\<rfloor>) \<and>
         real (nat \<lfloor>P\<rfloor>) \<le> T * 44100 * (1 + 1 / 2 ^ 51) \<and>
         (\<exists>bytes. renderToBlob lims mix mb vb vst = Inr bytes \<and>
           length bytes = 44 + nat \<lfloor>P\<rfloor> * 2 * 2)"
proof -
  let ?D = "total_duration mb vb vst"
  have td: "T * (ulo * ulo) \<le> ?D" "?D \<le> T * (uhi * uhi)" "0 \<le> T"
    using total_duration_bounds [OF assms(2,3,4,5)] by simp_all
  have Dnz: "?D \<noteq> 0"
  proof
    assume "?D = 0"
    then have "P = 0" by (simp add: assms(6))
    with assms(7) show False by simp
  qed
  have X0: "0 \<le> T * 44100" using td(3) by simp
  have "T * 44100 * ((ulo * ulo) * ulo) \<le> P \<and> P \<le> T * 44100 * ((uhi * uhi) * uhi)"
    unfolding assms(6)
  proof (rule rnd_chain [OF X0])
    show "0 \<le> ulo * ulo" using ulo_uhi(1) by simp
    show "T * 44100 * (ulo * ulo) \<le> ?D * 44100" using td(1) by simp
    show "?D * 44100 \<le> T * 44100 * (uhi * uhi)" using td(2) by simp
  qed
  then have P3: "T * 44100 * (ulo * (ulo * ulo)) \<le> P" "P \<le> T * 44100 * (uhi * (uhi * uhi))"
    by (simp_all add: mult.assoc)
  have "T * 44100 * (1 - 1 / 2 ^ 51) \<le> T * 44100 * (ulo * (ulo * ulo))"
    using X0 ulo_cube by (rule mult_left_mono [rotated])
  with P3(1) have Plow: "T * 44100 * (1 - 1 / 2 ^ 51) \<le> P" by linarith
  have "T * 44100 * (uhi * (uhi * uhi)) \<le> T * 44100 * (1 + 1 / 2 ^ 51)"
    using X0 uhi_cube by (rule mult_left_mono [rotated])
  with P3(2) have Pup: "P \<le> T * 44100 * (1 + 1 / 2 ^ 51)" by linarith
  have fl: "real (nat \<lfloor>P\<rfloor>) = of_int \<lfloor>P\<rfloor>" using assms(7) by simp
  have fr1: "T * 44100 * (1 - 1 / 2 ^ 51) - 1 < real (nat \<lfloor>P\<rfloor>)"
    unfolding fl using Plow by linarith
  have fr2: "real (nat \<lfloor>P\<rfloor>) \<le> T * 44100 * (1 + 1 / 2 ^ 51)"
    unfolding fl using Pup by linarith
  have len: "unat (ToUint32 (Num P)) = nat \<lfloor>P\<rfloor>"
    using assms(7,8) by (intro unat_ToUint32) auto
  have len1: "nat \<lfloor>P\<rfloor> \<noteq> 0"
    using assms(7) by (simp add: le_floor_iff)
  have lim: "\<not> maxChannels lims < 2" "\<not> 44100 < minSampleRate lims" "\<not> maxSampleRate lims < 44100"
    using assms(1) by (auto simp: conforming_def)
  have graph: "\<exists>ctx. render_graph lims mb vb vst = Inr ctx \<and>
           oc_channels ctx = 2 \<and> oc_sampleRate ctx = 44100 \<and> oc_length ctx = nat \<lfloor>P\<rfloor> \<and>
           oc_sources ctx = (case mb of None \<Rightarrow> [] | Some b \<Rightarrow> [whole b 0]) @
                            (case vb of None \<Rightarrow> [] | Some b \<Rightarrow> [whole b vst]) \<and>
           numberOfChannels (startRendering mix ctx) = 2 \<and>
           sampleRate (startRendering mix ctx) = 44100 \<and>
           length_frames (startRendering mix ctx) = nat \<lfloor>P\<rfloor>"
    using Dnz len len1 lim assms(4) unfolding assms(6)
    by (auto simp: render_graph_def Let_def newOfflineAudioContext_def offline_source_def
          node_start_def fresh_node_def whole_def startRendering_def numberOfChannels_def
          split: option.splits)
  then obtain ctx where ctx: "render_graph lims mb vb vst = Inr ctx"
      "numberOfChannels (startRendering mix ctx) = 2"
      "length_frames (startRendering mix ctx) = nat \<lfloor>P\<rfloor>"
    by blast
  have "\<exists>bytes. renderToBlob lims mix mb vb vst = Inr bytes \<and>
           length bytes = 44 + nat \<lfloor>P\<rfloor> * 2 * 2"
    using bufferToWave_length [of "startRendering mix ctx" "nat \<lfloor>P\<rfloor>"] ctx
    by (simp add: renderToBlob_def Let_def)
  with graph Plow Pup fr1 fr2 show ?thesis by blast
qed

text \<open>The doubles of three concrete renders.\<close>

lemmas double_defs = rnd_def expo.simps round_even_def

lemma total_duration_example:
  "total_duration (Some example_music) (Some example_voice) 3 \<noteq> 0"
  "rnd (total_duration (Some example_music) (Some example_voice) 3 * 44100) = 220500"
  by (simp_all add: total_duration_def duration_def example_music_def example_voice_def
        double_defs Let_def)

lemma total_duration_fifteen:
  "total_duration (Some fifteen_frames) None 0 \<noteq> 0"
  "rnd (total_duration (Some fifteen_frames) None 0 * 44100) =
     8444249301319679 / 562949953421312"
  by (simp_all add: total_duration_def duration_def fifteen_frames_def double_defs Let_def)

lemma total_duration_short:
  "total_duration None (Some short_voice) 0 \<noteq> 0"
  "\<lfloor>rnd (total_duration None (Some short_voice) 0 * 44100)\<rfloor> = 5"
  by (simp_all add: total_duration_def duration_def short_voice_def double_defs Let_def)

lemma example_facts:
  "duration example_music = 5" "duration example_voice = 2"
  "wf_buffer example_music" "wf_buffer example_voice"
  "duration fifteen_frames * 44100 = 15" "duration short_voice * 44100 = 441 / 80"
  by (simp_all add: duration_def wf_buffer_def example_music_def example_voice_def
        fifteen_frames_def short_voice_def)

lemmas graph_defs = render_graph_def newOfflineAudioContext_def minimal_limits_def
  offline_source_def node_start_def fresh_node_def whole_def trunc_def Let_def

theorem render_format_witness:
  "conforming minimal_limits \<and> wf_source (Some example_music) \<and> wf_source (Some example_voice) \<and>
   (0::real) \<le> 3 \<and> (5::real) = max (duration example_music) (3 + duration example_voice) \<and>
   (220500::real) = rnd (total_duration (Some example_music) (Some example_voice) 3 * 44100) \<and>
   (1::real) \<le> 220500 \<and> (220500::real) < 2 ^ 32 \<and>
   render_graph minimal_limits (Some example_music) (Some example_voice) 3 =
     Inr \<lparr>oc_channels = 2, oc_length = 220500, oc_sampleRate = 44100,
          oc_sources = [whole example_music 0, whole example_voice 3]\<rparr>"
  using render_format [where lims = minimal_limits and mb = "Some example_music"
      and vb = "Some example_voice" and vst = 3 and T = 5 and P = 220500
      and mix = "\<lambda>ctx c i. Num 0"]
  by (simp add: graph_defs total_duration_example conforming_def example_facts)

text \<open>C6 as stated fails: fifteen frames at 44100 Hz last exactly 15 frames, the double
  product of the duration and 44100 is one unit in the last place below 15, and the
  context is 14 frames long.\<close>

theorem render_length_counterexample:
  "render_graph minimal_limits (Some fifteen_frames) None 0 =
     Inr \<lparr>oc_channels = 2, oc_length = 14, oc_sampleRate = 44100,
          oc_sources = [whole fifteen_frames 0]\<rparr> \<and>
   duration fifteen_frames * 44100 = 15 \<and>
   rnd (total_duration (Some fifteen_frames) None 0 * 44100) =
     8444249301319679 / 562949953421312"
  by (simp add: graph_defs total_duration_fifteen example_facts)

text \<open>Where the product is not whole, its fraction is dropped: three frames at 24000 Hz
  give a context of 5 frames.\<close>

lemma render_fraction_dropped:
  "render_graph minimal_limits None (Some short_voice) 0 =
     Inr \<lparr>oc_channels = 2, oc_length = 5, oc_sampleRate = 44100,
          oc_sources = [whole short_voice 0]\<rparr> \<and>
   duration short_voice * 44100 = 441 / 80"
proof -
  have "0 \<le> rnd (total_duration None (Some short_voice) 0 * 44100)"
    using total_duration_short(2) by linarith
  then show ?thesis
    by (simp add: graph_defs total_duration_short example_facts)
qed

end
